(* ===== verification/Prelude.thy ===== *)
theory Prelude
  imports Main "HOL-Library.Word" "HOL-Library.Monad_Syntax"
begin

text \<open>
  Shared vocabulary of the development: Go strings as byte lists, the functions of the
  Go standard packages \<open>strings\<close>, \<open>strconv\<close> and \<open>errors\<close> that xun calls, run-time
  panics as \<open>None\<close>, and the lemma collections the component theories use.

  A Go string is a sequence of bytes, and a HOL \<open>char\<close> is a byte, so \<open>string\<close> is the
  right type and \<open>length\<close> is Go's \<open>len\<close>. Case folding and white space are the ASCII
  ones: they are exact for ASCII strings, which is what HTTP header fields, methods,
  host names and route patterns hold; bytes from \<open>0x80\<close> on are left alone.
\<close>

named_theorems go_simps \<open>evaluation of the Go string library\<close>
named_theorems inv_intros \<open>operations that keep a component's invariant\<close>

section \<open>Bytes\<close>

type_synonym byte = "8 word"

definition byte_of :: "char \<Rightarrow> nat" where
  "byte_of c = of_char c"

abbreviation LF :: char where "LF \<equiv> CHR 0x0A"
abbreviation CR :: char where "CR \<equiv> CHR 0x0D"
abbreviation TAB :: char where "TAB \<equiv> CHR 0x09"
abbreviation SP :: char where "SP \<equiv> CHR 0x20"
abbreviation DQUOTE :: char where "DQUOTE \<equiv> CHR 0x22"

lemma byte_of_less_256: "byte_of c < 256"
  by (simp add: byte_of_def)

section \<open>Slices and panics\<close>

text \<open>
  \<open>s[i:j]\<close> of Go: a run-time panic, here \<open>None\<close>, unless \<open>0 \<le> i \<le> j \<le> len s\<close>.
\<close>

definition go_slice :: "'a list \<Rightarrow> int \<Rightarrow> int \<Rightarrow> 'a list option" where
  "go_slice s i j =
     (if 0 \<le> i \<and> i \<le> j \<and> j \<le> int (length s)
      then Some (take (nat (j - i)) (drop (nat i) s)) else None)"

definition go_index :: "'a list \<Rightarrow> int \<Rightarrow> 'a option" where
  "go_index s i = (if 0 \<le> i \<and> i < int (length s) then Some (s ! nat i) else None)"

lemma go_slice_None_iff:
  "go_slice s i j = None \<longleftrightarrow> \<not> (0 \<le> i \<and> i \<le> j \<and> j \<le> int (length s))"
  by (simp add: go_slice_def)

lemma go_slice_full [simp]: "go_slice s 0 (int (length s)) = Some s"
  by (simp add: go_slice_def)

lemma go_slice_to_end:
  "n \<le> length s \<Longrightarrow> go_slice s (int n) (int (length s)) = Some (drop n s)"
  by (simp add: go_slice_def)

lemma go_slice_length: "go_slice s i j = Some t \<Longrightarrow> int (length t) = j - i"
  by (auto simp: go_slice_def split: if_splits)

section \<open>The package strings\<close>

definition has_prefix :: "'a list \<Rightarrow> 'a list \<Rightarrow> bool" where
  "has_prefix s p \<longleftrightarrow> length p \<le> length s \<and> take (length p) s = p"

definition has_suffix :: "'a list \<Rightarrow> 'a list \<Rightarrow> bool" where
  "has_suffix s x \<longleftrightarrow> length x \<le> length s \<and> drop (length s - length x) s = x"

definition trim_prefix :: "'a list \<Rightarrow> 'a list \<Rightarrow> 'a list" where
  "trim_prefix s p = (if has_prefix s p then drop (length p) s else s)"

definition trim_suffix :: "'a list \<Rightarrow> 'a list \<Rightarrow> 'a list" where
  "trim_suffix s x = (if has_suffix s x then take (length s - length x) s else s)"

lemma has_prefix_iff: "has_prefix s p \<longleftrightarrow> (\<exists>t. s = p @ t)"
  unfolding has_prefix_def
  by (metis append_take_drop_id append_eq_conv_conj length_append le_add1)

lemma has_suffix_iff: "has_suffix s x \<longleftrightarrow> (\<exists>t. s = t @ x)"
proof
  assume "has_suffix s x"
  then show "\<exists>t. s = t @ x"
    unfolding has_suffix_def by (metis append_take_drop_id)
next
  assume "\<exists>t. s = t @ x"
  then show "has_suffix s x" by (auto simp: has_suffix_def)
qed

lemma has_prefix_append [simp]: "has_prefix (p @ t) p"
  by (auto simp: has_prefix_iff)

lemma has_suffix_append [simp]: "has_suffix (t @ x) x"
  by (auto simp: has_suffix_iff)

lemma has_prefix_Nil [simp]: "has_prefix s []"
  by (simp add: has_prefix_def)

lemma has_prefix_Cons [simp]:
  "has_prefix (c # s) (d # p) \<longleftrightarrow> c = d \<and> has_prefix s p"
  by (auto simp: has_prefix_def)

lemma has_prefix_Nil_Cons [simp]: "\<not> has_prefix [] (d # p)"
  by (simp add: has_prefix_def)

lemma trim_prefix_append [simp]: "trim_prefix (p @ t) p = t"
  by (simp add: trim_prefix_def)

lemma trim_suffix_append [simp]: "trim_suffix (t @ x) x = t"
  by (simp add: trim_suffix_def)

text \<open>\<open>strings.IndexByte\<close>: the first index of a byte; Go's \<open>-1\<close> is \<open>None\<close>.\<close>

fun index_byte :: "string \<Rightarrow> char \<Rightarrow> nat option" where
  "index_byte [] c = None"
| "index_byte (x # xs) c = (if x = c then Some 0 else map_option Suc (index_byte xs c))"

text \<open>The same as Go's integer.\<close>

definition index_int :: "string \<Rightarrow> char \<Rightarrow> int" where
  "index_int s c = (case index_byte s c of None \<Rightarrow> -1 | Some i \<Rightarrow> int i)"

lemma index_byte_None_iff: "index_byte s c = None \<longleftrightarrow> c \<notin> set s"
  by (induction s) auto

lemma index_byte_Some:
  "index_byte s c = Some i \<Longrightarrow>
     i < length s \<and> s ! i = c \<and> c \<notin> set (take i s) \<and> s = take i s @ c # drop (Suc i) s"
  by (induction s arbitrary: i) (auto split: if_splits)

lemma index_byte_append_Cons:
  "c \<notin> set xs \<Longrightarrow> index_byte (xs @ c # ys) c = Some (length xs)"
  by (induction xs) auto

text \<open>\<open>strings.Split\<close> by a one-byte separator: never empty.\<close>

fun go_split :: "string \<Rightarrow> char \<Rightarrow> string list" where
  "go_split [] c = [[]]"
| "go_split (x # xs) c =
     (if x = c then [] # go_split xs c
      else (case go_split xs c of [] \<Rightarrow> [[x]] | y # ys \<Rightarrow> (x # y) # ys))"

fun go_join :: "string list \<Rightarrow> string \<Rightarrow> string" where
  "go_join [] sep = []"
| "go_join [x] sep = x"
| "go_join (x # y # ys) sep = x @ sep @ go_join (y # ys) sep"

lemma go_split_not_Nil [simp]: "go_split s c \<noteq> []"
  by (cases s) (auto split: list.splits)

lemma go_split_no_sep: "c \<notin> set s \<Longrightarrow> go_split s c = [s]"
  by (induction s) auto

lemma go_split_append_sep:
  "c \<notin> set s \<Longrightarrow> go_split (s @ c # t) c = s # go_split t c"
  by (induction s) (auto split: list.splits)

lemma go_split_parts: "p \<in> set (go_split s c) \<Longrightarrow> c \<notin> set p"
proof (induction s arbitrary: p)
  case (Cons x xs)
  then show ?case
    by (cases "go_split xs c") (auto split: if_splits)
qed simp

lemma go_join_split: "go_join (go_split s c) [c] = s"
proof (induction s)
  case (Cons x xs)
  obtain y ys where ys: "go_split xs c = y # ys"
    by (cases "go_split xs c") auto
  with Cons.IH show ?case
    by (cases ys) auto
qed simp

lemma go_split_join:
  "ps \<noteq> [] \<Longrightarrow> (\<And>p. p \<in> set ps \<Longrightarrow> c \<notin> set p) \<Longrightarrow> go_split (go_join ps [c]) c = ps"
  by (induction ps "[c]" rule: go_join.induct)
     (simp_all add: go_split_no_sep go_split_append_sep)

text \<open>Trimming: \<open>strings.TrimSpace\<close>, \<open>strings.Trim\<close> with a cut set, \<open>textproto.TrimString\<close>.\<close>

definition is_space :: "char \<Rightarrow> bool" where
  "is_space c \<longleftrightarrow> c \<in> {SP, TAB, LF, CR, CHR 0x0B, CHR 0x0C}"

lemma not_is_space [simp]:
  "\<not> is_space CHR '';''" "\<not> is_space CHR '',''" "\<not> is_space CHR ''/''" "\<not> is_space DQUOTE"
  "\<not> is_space CHR ''*''" "\<not> is_space CHR ''[''" "\<not> is_space CHR ''.''" "\<not> is_space CHR ''-''" "\<not> is_space CHR '':''"
  by (simp_all add: is_space_def)

lemma is_space_chars [simp]:
  "is_space SP" "is_space TAB" "is_space LF" "is_space CR"
  by (simp_all add: is_space_def)

lemma list_all_not_in: "list_all P s \<Longrightarrow> \<not> P c \<Longrightarrow> c \<notin> set s"
  by (auto simp: list_all_iff)

lemma dropWhile_skip: "list_all P ws \<Longrightarrow> s = [] \<or> \<not> P (hd s) \<Longrightarrow> dropWhile P (ws @ s) = s"
  by (cases s) (simp_all add: list_all_iff)

definition trim_right :: "('a \<Rightarrow> bool) \<Rightarrow> 'a list \<Rightarrow> 'a list" where
  "trim_right p s = rev (dropWhile p (rev s))"

definition trim_by :: "('a \<Rightarrow> bool) \<Rightarrow> 'a list \<Rightarrow> 'a list" where
  "trim_by p s = trim_right p (dropWhile p s)"

definition trim_space :: "string \<Rightarrow> string" where
  "trim_space = trim_by is_space"

lemma trim_right_Nil [simp]: "trim_right p [] = []"
  by (simp add: trim_right_def)

lemma trim_by_Nil [simp]: "trim_by p [] = []"
  by (simp add: trim_by_def)

lemma trim_space_Nil [simp]: "trim_space [] = []"
  by (simp add: trim_space_def)

lemma trim_right_id: "s = [] \<or> \<not> p (last s) \<Longrightarrow> trim_right p s = s"
proof -
  assume h: "s = [] \<or> \<not> p (last s)"
  show ?thesis
  proof (cases s rule: rev_cases)
    case (snoc ys y)
    with h show ?thesis by (simp add: trim_right_def)
  qed simp
qed

lemma trim_right_drop_last: "p x \<Longrightarrow> trim_right p (s @ [x]) = trim_right p s"
  by (simp add: trim_right_def)

lemma length_trim_right: "length (trim_right p s) \<le> length s"
  unfolding trim_right_def using length_dropWhile_le [of p "rev s"] by simp

lemma length_trim_by: "length (trim_by p s) \<le> length s"
  unfolding trim_by_def
  by (rule order_trans [OF length_trim_right length_dropWhile_le])

lemma trim_by_id:
  "s = [] \<or> (\<not> p (hd s) \<and> \<not> p (last s)) \<Longrightarrow> trim_by p s = s"
  unfolding trim_by_def by (cases s) (auto simp: trim_right_id)

lemma last_trim_right: "trim_right p s \<noteq> [] \<Longrightarrow> \<not> p (last (trim_right p s))"
  unfolding trim_right_def
  by (metis hd_dropWhile last_rev rev_is_Nil_conv)

lemma trim_right_prefix: "\<exists>t. s = trim_right p s @ t"
  unfolding trim_right_def
  by (metis rev_append rev_rev_ident takeWhile_dropWhile_id)

lemma hd_trim_by: "trim_by p s \<noteq> [] \<Longrightarrow> \<not> p (hd (trim_by p s))"
proof -
  assume ne: "trim_by p s \<noteq> []"
  obtain t where t: "dropWhile p s = trim_by p s @ t"
    using trim_right_prefix [of "dropWhile p s" p] by (auto simp: trim_by_def)
  with ne have "hd (trim_by p s) = hd (dropWhile p s)" by simp
  moreover from t ne have "dropWhile p s \<noteq> []" by auto
  ultimately show ?thesis by (simp add: hd_dropWhile)
qed

lemma trim_by_idem [simp]: "trim_by p (trim_by p s) = trim_by p s"
proof (cases "trim_by p s = []")
  case False
  then have "\<not> p (hd (trim_by p s))" by (rule hd_trim_by)
  moreover from False have "\<not> p (last (trim_by p s))"
    by (simp add: trim_by_def last_trim_right)
  ultimately show ?thesis by (intro trim_by_id) simp
qed simp

lemma trim_space_idem [simp]: "trim_space (trim_space s) = trim_space s"
  by (simp add: trim_space_def)

text \<open>\<open>strings.ToLower\<close> and \<open>strings.EqualFold\<close> on ASCII.\<close>

definition lower_char :: "char \<Rightarrow> char" where
  "lower_char c = (if 65 \<le> byte_of c \<and> byte_of c \<le> 90 then char_of (byte_of c + 32) else c)"

definition upper_char :: "char \<Rightarrow> char" where
  "upper_char c = (if 97 \<le> byte_of c \<and> byte_of c \<le> 122 then char_of (byte_of c - 32) else c)"

definition to_lower :: "string \<Rightarrow> string" where
  "to_lower s = map lower_char s"

definition equal_fold :: "string \<Rightarrow> string \<Rightarrow> bool" where
  "equal_fold a b \<longleftrightarrow> to_lower a = to_lower b"

lemma byte_of_lower_char: "byte_of (lower_char c) = (if 65 \<le> byte_of c \<and> byte_of c \<le> 90 then byte_of c + 32 else byte_of c)"
  by (simp add: lower_char_def byte_of_def)

lemma lower_char_idem [simp]: "lower_char (lower_char c) = lower_char c"
  using byte_of_lower_char [of c] by (auto simp: lower_char_def [of "lower_char c"])

lemma to_lower_idem [simp]: "to_lower (to_lower s) = to_lower s"
  by (simp add: to_lower_def)

lemma length_to_lower [simp]: "length (to_lower s) = length s"
  by (simp add: to_lower_def)

lemma equal_fold_refl [simp]: "equal_fold s s"
  by (simp add: equal_fold_def)

lemma equal_fold_sym: "equal_fold a b \<Longrightarrow> equal_fold b a"
  by (simp add: equal_fold_def)

text \<open>\<open>strings.Contains\<close>, \<open>strings.ReplaceAll\<close> of one byte, \<open>strings.Fields\<close>.\<close>

fun str_contains :: "string \<Rightarrow> string \<Rightarrow> bool" where
  "str_contains [] sub \<longleftrightarrow> sub = []"
| "str_contains (c # s) sub \<longleftrightarrow> has_prefix (c # s) sub \<or> str_contains s sub"

lemma str_contains_iff: "str_contains s sub \<longleftrightarrow> (\<exists>a b. s = a @ sub @ b)"
proof (induction s)
  case (Cons c s)
  show ?case
  proof
    assume "str_contains (c # s) sub"
    then consider "has_prefix (c # s) sub" | "str_contains s sub" by auto
    then show "\<exists>a b. c # s = a @ sub @ b"
    proof cases
      case 1
      then show ?thesis by (metis append_Nil has_prefix_iff)
    next
      case 2
      with Cons.IH show ?thesis by (metis append_Cons)
    qed
  next
    assume "\<exists>a b. c # s = a @ sub @ b"
    then obtain a b where ab: "c # s = a @ sub @ b" by blast
    show "str_contains (c # s) sub"
    proof (cases a)
      case Nil
      with ab have "has_prefix (c # s) sub" by simp
      then show ?thesis by simp
    next
      case (Cons x a')
      with ab have "s = a' @ sub @ b" by simp
      with Cons.IH show ?thesis by auto
    qed
  qed
qed simp

definition replace_byte :: "string \<Rightarrow> char \<Rightarrow> string \<Rightarrow> string" where
  "replace_byte s c r = concat (map (\<lambda>x. if x = c then r else [x]) s)"

definition go_fields :: "string \<Rightarrow> string list" where
  "go_fields s =
     filter (\<lambda>w. w \<noteq> []) (go_split (map (\<lambda>c. if is_space c then SP else c) s) SP)"

lemma go_fields_parts: "w \<in> set (go_fields s) \<Longrightarrow> w \<noteq> [] \<and> SP \<notin> set w"
  by (auto simp: go_fields_def dest: go_split_parts)

section \<open>The package strconv\<close>

definition digit :: "nat \<Rightarrow> char" where
  "digit n = char_of (48 + n)"

definition is_digit :: "char \<Rightarrow> bool" where
  "is_digit c \<longleftrightarrow> 48 \<le> byte_of c \<and> byte_of c \<le> 57"

definition digit_val :: "char \<Rightarrow> nat" where
  "digit_val c = byte_of c - 48"

fun dec_digits :: "nat \<Rightarrow> string" where
  "dec_digits n = (if n < 10 then [digit n] else dec_digits (n div 10) @ [digit (n mod 10)])"

declare dec_digits.simps [simp del]

text \<open>\<open>strconv.Itoa\<close> and \<open>strconv.FormatInt(_, 10)\<close>\<close>

definition itoa :: "int \<Rightarrow> string" where
  "itoa i = (if i < 0 then CHR ''-'' # dec_digits (nat (- i)) else dec_digits (nat i))"

definition dec_val :: "string \<Rightarrow> nat" where
  "dec_val ds = foldl (\<lambda>a c. 10 * a + digit_val c) 0 ds"

definition max_int64 :: int where "max_int64 = 2 ^ 63 - 1"
definition min_int64 :: int where "min_int64 = - (2 ^ 63)"

text \<open>
  \<open>strconv.Atoi\<close>: the value and whether the error is nil. On a syntax error the value is
  0, out of the range of a 64-bit \<open>int\<close> it is the nearest bound.
\<close>

definition atoi :: "string \<Rightarrow> int \<times> bool" where
  "atoi s =
     (let (neg, ds) =
        (case s of
           [] \<Rightarrow> (False, [])
         | c # r \<Rightarrow> if c = CHR ''-'' then (True, r) else if c = CHR ''+'' then (False, r) else (False, s))
      in if ds = [] \<or> \<not> list_all is_digit ds then (0, False)
         else let v = (if neg then - int (dec_val ds) else int (dec_val ds))
              in if v > max_int64 then (max_int64, False)
                 else if v < min_int64 then (min_int64, False)
                 else (v, True))"

lemma is_digit_digit: "n < 10 \<Longrightarrow> is_digit (digit n)"
  by (simp add: is_digit_def digit_def byte_of_def)

lemma digit_val_digit: "n < 10 \<Longrightarrow> digit_val (digit n) = n"
  by (simp add: digit_val_def digit_def byte_of_def)

lemma dec_digits_not_Nil [simp]: "dec_digits n \<noteq> []"
  by (subst dec_digits.simps) simp

lemma dec_digits_digits: "list_all is_digit (dec_digits n)"
proof (induction n rule: dec_digits.induct)
  case (1 n)
  then show ?case
    by (subst dec_digits.simps) (auto simp: is_digit_digit)
qed

lemma dec_val_digits: "dec_val (dec_digits n) = n"
proof (induction n rule: dec_digits.induct)
  case (1 n)
  then show ?case
    by (subst dec_digits.simps) (auto simp: dec_val_def digit_val_digit)
qed

lemma is_digit_plain: "is_digit c \<Longrightarrow> c \<noteq> CHR ''-'' \<and> c \<noteq> CHR ''+'' \<and> \<not> is_space c \<and> c \<noteq> CHR '':''"
  by (auto simp: is_digit_def is_space_def byte_of_def)

lemma atoi_itoa:
  assumes "min_int64 \<le> i" "i \<le> max_int64"
  shows "atoi (itoa i) = (i, True)"
proof (cases "i < 0")
  case True
  with assms show ?thesis
    by (simp add: itoa_def atoi_def dec_val_digits dec_digits_digits)
next
  case False
  obtain d ds where d: "dec_digits (nat i) = d # ds" by (cases "dec_digits (nat i)") auto
  then have "is_digit d" using dec_digits_digits [of "nat i"] by simp
  with d False assms show ?thesis
    using dec_val_digits [of "nat i"] dec_digits_digits [of "nat i"] is_digit_plain [of d]
    by (simp add: itoa_def atoi_def)
qed

lemma set_itoa: "c \<in> set (itoa i) \<Longrightarrow> is_digit c \<or> c = CHR ''-''"
  using dec_digits_digits by (auto simp: itoa_def list_all_iff split: if_splits)

lemma itoa_not_Nil [simp]: "itoa i \<noteq> []"
  by (simp add: itoa_def)

section \<open>The package time\<close>

record utc =
  ut_year :: nat
  ut_month :: nat
  ut_day :: nat
  ut_hour :: nat
  ut_min :: nat
  ut_sec :: nat

definition pad2 :: "nat \<Rightarrow> string" where "pad2 n = [digit (n div 10), digit (n mod 10)]"
definition pad4 :: "nat \<Rightarrow> string" where "pad4 n = pad2 (n div 100) @ pad2 (n mod 100)"

section \<open>Errors\<close>

text \<open>
  Errors by identity: the sentinels of \<open>errs.go\<close>, the ones of the standard library that
  the code tests for, any other error by its text, and an error that wraps another.
  \<open>errors_is\<close> is \<open>errors.Is\<close>.
\<close>

datatype gerr = ErrCancelled | ErrViewNotFound | ErrNotExist | ErrMsg string | Wrapped string gerr

fun errors_is :: "gerr \<Rightarrow> gerr \<Rightarrow> bool" where
  "errors_is (Wrapped m e) t \<longleftrightarrow> Wrapped m e = t \<or> errors_is e t"
| "errors_is e t \<longleftrightarrow> e = t"

lemma errors_is_refl [simp]: "errors_is e e"
  by (cases e) auto

text \<open>Values of the static type \<open>any\<close>: what the code's type assertions can tell apart.\<close>

datatype any = AnyNil | AnyInt int | AnyString string | AnyOther nat

end
