(* ===== verification/Pattern.thy ===== *)
theory Pattern
  imports Prelude
begin

text \<open>
  Route patterns: \<open>pattern.go\<close> (\<open>splitPattern\<close>, \<open>splitFile\<close>) and the part of the view
  engines that turns the name of a page or of a public file into the pattern it is
  served under. A Go run-time panic is \<open>None\<close>.
\<close>

section \<open>splitPattern\<close>

definition is_blank :: "char \<Rightarrow> bool" where
  "is_blank c \<longleftrightarrow> c = SP \<or> c = TAB"

text \<open>\<open>strings.IndexAny(s, " \t")\<close>\<close>

fun index_blank :: "string \<Rightarrow> nat option" where
  "index_blank [] = None"
| "index_blank (x # xs) = (if is_blank x then Some 0 else map_option Suc (index_blank xs))"

lemma index_blank_append:
  "(\<And>x. x \<in> set xs \<Longrightarrow> \<not> is_blank x) \<Longrightarrow> is_blank y \<Longrightarrow>
     index_blank (xs @ y # ys) = Some (length xs)"
  by (induction xs) auto

definition split_pattern :: "string \<Rightarrow> string \<times> string \<times> string" where
  "split_pattern s =
     (if s = [] then ([], [], [])
      else
        let (method, rest) =
              (case index_blank s of
                 Some i \<Rightarrow> (take i s, dropWhile is_blank (drop (Suc i) s))
               | None \<Rightarrow> ([], s))
        in (case index_byte rest (CHR ''/'') of
              None \<Rightarrow> (method, [], rest)
            | Some i \<Rightarrow> (method, take i rest, drop (Suc i) rest)))"

section \<open>splitFile\<close>

text \<open>The body before the deferred function runs: \<open>(host, path, pattern)\<close>.\<close>

definition split_file_body :: "string \<Rightarrow> (string \<times> string \<times> string) option" where
  "split_file_body s =
     (if s = [] then Some ([], [], ''GET /'')
      else
        let i = index_int s (CHR ''@'')
        in if i < 0 then Some ([], ''/'' @ s, ''GET /'' @ s)
           else
             let e = index_int s (CHR ''/'')
             in do {
                  host \<leftarrow> go_slice s (i + 1) e;
                  rest \<leftarrow> go_slice s (e + 1) (int (length s));
                  full \<leftarrow> go_slice s (i + 1) (int (length s));
                  Some (host, ''/'' @ rest, ''GET '' @ full)
                })"

text \<open>The deferred function: a pattern that ends in a slash matches exactly that path.\<close>

definition close_pattern :: "string \<Rightarrow> string option" where
  "close_pattern pat =
     do {
       c \<leftarrow> go_index pat (int (length pat) - 1);
       Some (if c = CHR ''/'' then pat @ ''{$}'' else pat)
     }"

definition split_file :: "string \<Rightarrow> (string \<times> string \<times> string) option" where
  "split_file s =
     do {
       (host, path, pat) \<leftarrow> split_file_body s;
       pat' \<leftarrow> close_pattern pat;
       Some (host, path, pat')
     }"

lemma close_pattern_nonempty:
  "pat \<noteq> [] \<Longrightarrow> close_pattern pat = Some (if last pat = CHR ''/'' then pat @ ''{$}'' else pat)"
proof -
  assume ne: "pat \<noteq> []"
  then have "nat (int (length pat) - 1) = length pat - 1" by (cases pat) auto
  with ne show ?thesis
    by (simp add: close_pattern_def go_index_def last_conv_nth Suc_leI)
qed

lemma split_file_no_host:
  "CHR ''@'' \<notin> set s \<Longrightarrow>
     split_file s = Some ([], if s = [] then [] else ''/'' @ s,
       if s = [] \<or> last s = CHR ''/'' then ''GET /'' @ s @ ''{$}'' else ''GET /'' @ s)"
proof (cases "s = []")
  case False
  assume "CHR ''@'' \<notin> set s"
  then have "index_int s (CHR ''@'') = -1"
    by (simp add: index_int_def index_byte_None_iff split: option.splits)
  with False show ?thesis
    by (simp add: split_file_def split_file_body_def close_pattern_nonempty)
qed (simp add: split_file_def split_file_body_def close_pattern_nonempty)

text \<open>A name with a host part: \<open>junk @ '@' host '/' rest\<close>.\<close>

lemma split_file_host:
  assumes "CHR ''@'' \<notin> set junk" "CHR ''/'' \<notin> set junk" "CHR ''/'' \<notin> set host"
  shows "split_file (junk @ CHR ''@'' # host @ CHR ''/'' # rest) =
    Some (host, CHR ''/'' # rest,
      if rest = [] \<or> last rest = CHR ''/'' then ''GET '' @ host @ ''/'' @ rest @ ''{$}''
      else ''GET '' @ host @ ''/'' @ rest)"
proof -
  let ?s = "junk @ CHR ''@'' # host @ CHR ''/'' # rest"
  let ?i = "int (length junk)"
  have i: "index_int ?s (CHR ''@'') = ?i"
    using assms(1) by (simp add: index_int_def index_byte_append_Cons)
  have "index_byte ((junk @ CHR ''@'' # host) @ CHR ''/'' # rest) (CHR ''/'')
      = Some (length (junk @ CHR ''@'' # host))"
    by (rule index_byte_append_Cons) (use assms in auto)
  then have e: "index_int ?s (CHR ''/'') = ?i + 1 + int (length host)"
    by (simp add: index_int_def)
  have "go_slice ?s (?i + 1) (?i + 1 + int (length host)) = Some host"
    by (simp add: go_slice_def nat_add_distrib)
  moreover have "go_slice ?s (?i + 1 + int (length host) + 1) (int (length ?s)) = Some rest"
    by (simp add: go_slice_def nat_add_distrib)
  moreover have "go_slice ?s (?i + 1) (int (length ?s)) = Some (host @ CHR ''/'' # rest)"
    by (simp add: go_slice_def nat_add_distrib)
  ultimately have "split_file_body ?s =
      Some (host, CHR ''/'' # rest, ''GET '' @ host @ CHR ''/'' # rest)"
    unfolding split_file_body_def Let_def i e by simp
  then show ?thesis
    by (simp add: split_file_def close_pattern_nonempty)
qed


section \<open>Pages and public files\<close>

text \<open>
  \<open>HtmlViewEngine.loadPage\<close>: the pattern and the viewer name of a file under \<open>pages/\<close>.
\<close>

definition page_route :: "string \<Rightarrow> (string \<times> string) option" where
  "page_route path =
     do {
       name \<leftarrow> go_slice path 6 (int (length path));
       name' \<leftarrow> (if has_suffix path ''/index.html''
                  then go_slice name 0 (int (length name) - 10) else Some name);
       (host, p, pat) \<leftarrow> split_file name';
       view \<leftarrow> go_slice path 6 (int (length path) - 5);
       Some (trim_suffix pat ''.html'', view)
     }"

text \<open>\<open>StaticViewEngine.handle\<close>: the name a file under \<open>public/\<close> is registered with.\<close>

definition static_name :: "string \<Rightarrow> string" where
  "static_name path =
     trim_prefix (if has_suffix path ''/index.html'' then take (length path - 10) path else path)
       ''public/''"

lemma page_route_slices:
  "go_slice (''pages/'' @ n) 6 (int (length (''pages/'' @ n))) = Some n"
  "go_slice (''pages/'' @ n @ ''.html'') 6 (int (length (''pages/'' @ n @ ''.html'')) - 5) = Some n"
  by (simp_all add: go_slice_def)

lemma page_route_plain:
  assumes "CHR ''@'' \<notin> set n" "n \<noteq> ''index''" "\<not> has_suffix n ''/index''"
  shows "page_route (''pages/'' @ n @ ''.html'') = Some (''GET /'' @ n, n)"
proof -
  have "\<not> has_suffix (''pages/'' @ n @ ''.html'') ''/index.html''"
  proof
    assume "has_suffix (''pages/'' @ n @ ''.html'') ''/index.html''"
    then obtain t where "''pages/'' @ n @ ''.html'' = t @ ''/index.html''"
      by (auto simp only: has_suffix_iff)
    then have "(''pages/'' @ n) @ ''.html'' = (t @ ''/index'') @ ''.html''" by simp
    then have eq: "''pages/'' @ n = t @ ''/index''" by (simp only: append_same_eq)
    from eq consider (inside) us where "''pages/'' = t @ us" "us @ n = ''/index''"
      | (after) us where "n = us @ ''/index''"
      by (auto simp only: append_eq_append_conv2)
    then show False
    proof cases
      case inside
      then show False using assms(2,3)
        by (auto simp: append_eq_Cons_conv Cons_eq_append_conv has_suffix_def)
    next
      case after
      with assms(3) show False by simp
    qed
  qed
  moreover have "split_file (n @ ''.html'') = Some ([], ''/'' @ n @ ''.html'', ''GET /'' @ n @ ''.html'')"
    using assms(1) by (subst split_file_no_host) auto
  moreover have "trim_suffix (''GET /'' @ n @ ''.html'') ''.html'' = ''GET /'' @ n"
    using trim_suffix_append [of "''GET /'' @ n" "''.html''"] by (simp only: append_assoc)
  ultimately show ?thesis
    unfolding page_route_def
    using page_route_slices(1) [of "n @ ''.html''"] page_route_slices(2) [of n] by simp
qed

lemma page_route_index_gen:
  assumes "split_file (d @ ''/'') = Some (h, p, pat @ ''/{$}'')"
  shows "page_route (''pages/'' @ d @ ''/index.html'') = Some (pat @ ''/{$}'', d @ ''/index'')"
proof -
  have "has_suffix (''pages/'' @ d @ ''/index.html'') ''/index.html''"
    using has_suffix_append [of "''pages/'' @ d" "''/index.html''"] by (simp only: append_assoc)
  moreover have "go_slice (d @ ''/index.html'') 0 (int (length (d @ ''/index.html'')) - 10) = Some (d @ ''/'')"
    by (simp add: go_slice_def nat_add_distrib)
  moreover have "\<not> has_suffix (pat @ ''/{$}'') ''.html''"
  proof
    assume "has_suffix (pat @ ''/{$}'') ''.html''"
    then obtain t where "pat @ ''/{$}'' = t @ ''.html''" by (auto simp only: has_suffix_iff)
    then have "last (pat @ ''/{$}'') = last (t @ ''.html'')" by (simp only:)
    then show False by simp
  qed
  then have "trim_suffix (pat @ ''/{$}'') ''.html'' = pat @ ''/{$}''" by (simp add: trim_suffix_def)
  ultimately show ?thesis
    unfolding page_route_def
    using page_route_slices(1) [of "d @ ''/index.html''"] page_route_slices(2) [of "d @ ''/index''"] assms
    by simp
qed

lemma split_file_None_iff:
  "split_file s = None \<longleftrightarrow>
     CHR ''@'' \<in> set s \<and> index_int s (CHR ''/'') < index_int s (CHR ''@'')"
proof (cases "CHR ''@'' \<in> set s")
  case False
  then show ?thesis by (simp add: split_file_no_host)
next
  case True
  then obtain i where i: "index_byte s (CHR ''@'') = Some i"
    by (cases "index_byte s (CHR ''@'')") (auto simp: index_byte_None_iff)
  have si: "i < length s" "s ! i = CHR ''@''" using index_byte_Some [OF i] by auto
  have ne: "s \<noteq> []" using True by auto
  show ?thesis
  proof (cases "index_byte s (CHR ''/'')")
    case None
    with i True ne show ?thesis
      by (simp add: split_file_def split_file_body_def index_int_def go_slice_def)
  next
    case (Some e)
    have se: "e < length s" "s ! e = CHR ''/''" using index_byte_Some [OF Some] by auto
    with si have "e \<noteq> i" by auto
    with i Some True ne si se show ?thesis
      by (auto simp: split_file_def split_file_body_def index_int_def go_slice_def
          close_pattern_nonempty Let_def split: if_splits)
  qed
qed

section \<open>Properties\<close>

text \<open>
  C34: \<open>splitFile\<close> fails with a run-time panic (a slice out of range) exactly on the names
  that hold an \<open>@\<close> and whose first slash does not come after the first \<open>@\<close>: there is no
  slash at all, or one comes before; every other name is split.
\<close>

theorem split_file_panics_iff:
  "split_file s = None \<longleftrightarrow>
     CHR ''@'' \<in> set s \<and> index_int s (CHR ''/'') < index_int s (CHR ''@'')"
  by (rule split_file_None_iff)

text \<open>
  C35: the pattern that \<open>splitFile\<close> builds is read back by \<open>splitPattern\<close>: the method is
  GET, the host is the host part of the name and the path is the path of the name, closed
  with the exact-match marker when it ends in a slash.
\<close>

theorem split_pattern_split_file:
  assumes "split_file s = Some (host, path, pat)" and "path \<noteq> []"
    and "host = [] \<or> \<not> is_blank (hd host)"
  shows "split_pattern pat =
    (''GET'', host, tl path @ (if last path = CHR ''/'' then ''{$}'' else []))"
proof -
  have blank: "index_blank (''GET '' @ t) = Some 3" for t
    by (simp add: is_blank_def)
  have rd: "split_pattern (''GET '' @ h @ CHR ''/'' # t) = (''GET'', h, t)"
    if "h = [] \<or> \<not> is_blank (hd h)" "CHR ''/'' \<notin> set h" for h t
  proof -
    have "dropWhile is_blank (h @ CHR ''/'' # t) = h @ CHR ''/'' # t"
      using that(1) by (cases h) (auto simp: is_blank_def)
    then show ?thesis
      using blank [of "h @ CHR ''/'' # t"] that(2)
      by (simp add: split_pattern_def index_byte_append_Cons del: index_blank.simps)
  qed
  show ?thesis
  proof (cases "CHR ''@'' \<in> set s")
    case False
    from split_file_no_host [OF False] assms(1,2) have "host = []" "path = CHR ''/'' # s" "s \<noteq> []"
      and pat: "pat = ''GET '' @ [] @ CHR ''/'' # (s @ (if last s = CHR ''/'' then ''{$}'' else []))"
      by (auto split: if_splits)
    then show ?thesis using rd [of "[]"] by (simp only: pat) simp
  next
    case True
    then obtain i where i: "index_byte s (CHR ''@'') = Some i"
      by (cases "index_byte s (CHR ''@'')") (auto simp: index_byte_None_iff)
    from True assms(1) split_file_None_iff [of s]
    have lt: "index_int s (CHR ''@'') \<le> index_int s (CHR ''/'')" by auto
    with i obtain e where e: "index_byte s (CHR ''/'') = Some e" and "i \<le> e"
      by (cases "index_byte s (CHR ''/'')") (auto simp: index_int_def)
    from index_byte_Some [OF i] have junk: "CHR ''@'' \<notin> set (take i s)"
      and s1: "s = take i s @ CHR ''@'' # drop (Suc i) s" by auto
    from index_byte_Some [OF e] have slash: "CHR ''/'' \<notin> set (take e s)" "e < length s" "s ! e = CHR ''/''" by auto
    with index_byte_Some [OF i] \<open>i \<le> e\<close> have "i < e" by (cases "i = e") auto
    define h where "h = drop (Suc i) (take e s)"
    have s2: "s = take i s @ CHR ''@'' # h @ CHR ''/'' # drop (Suc e) s"
    proof -
      have "drop (Suc i) s = drop (Suc i) (take e s @ CHR ''/'' # drop (Suc e) s)"
        using slash id_take_nth_drop [of e s] by simp
      also have "\<dots> = h @ CHR ''/'' # drop (Suc e) s"
        using \<open>i < e\<close> slash(2) by (simp add: h_def)
      finally show ?thesis using s1 by simp
    qed
    have "CHR ''/'' \<notin> set (take i s)" "CHR ''/'' \<notin> set h"
      using slash(1) \<open>i < e\<close> set_take_subset_set_take [of i e s]
      by (auto simp: h_def dest: in_set_dropD)
    then have "split_file s = Some (h, CHR ''/'' # drop (Suc e) s,
        ''GET '' @ h @ CHR ''/'' # (drop (Suc e) s @
          (if last (CHR ''/'' # drop (Suc e) s) = CHR ''/'' then ''{$}'' else [])))"
      using split_file_host [OF junk, of h "drop (Suc e) s"] by (subst s2) auto
    with assms(1) have "host = h" "path = CHR ''/'' # drop (Suc e) s"
      and pat: "pat = ''GET '' @ h @ CHR ''/'' # (drop (Suc e) s @
          (if last (CHR ''/'' # drop (Suc e) s) = CHR ''/'' then ''{$}'' else []))"
      by auto
    then show ?thesis using rd [of h] assms(3) \<open>CHR ''/'' \<notin> set h\<close> by (simp only: pat) simp
  qed
qed

theorem split_pattern_split_file_witness:
  "split_file ''@abc.com/docs/'' = Some (''abc.com'', ''/docs/'', ''GET abc.com/docs/{$}'') \<and>
   split_pattern ''GET abc.com/docs/{$}'' = (''GET'', ''abc.com'', ''docs/{$}'')"
proof -
  have h: "split_file ''@abc.com/docs/'' = Some (''abc.com'', ''/docs/'', ''GET abc.com/docs/{$}'')"
    by code_simp
  show ?thesis
    using split_pattern_split_file [OF h] h by (simp add: is_blank_def)
qed


text \<open>
  The routes of pages. A page \<open>pages/N.html\<close> is served under \<open>GET /N\<close>, an index page
  \<open>pages/D/index.html\<close> under the exact path of its directory, and the index page of a host
  directory \<open>pages/@H/index.html\<close> under the root of that host; the viewer is named by the
  path below \<open>pages/\<close> without the extension.
\<close>

theorem page_route_forms:
  assumes "CHR ''@'' \<notin> set n" and "n \<noteq> ''index''" and "\<not> has_suffix n ''/index''"
    and "CHR ''@'' \<notin> set d" and "CHR ''/'' \<notin> set h"
  shows "page_route (''pages/'' @ n @ ''.html'') = Some (''GET /'' @ n, n) \<and>
    page_route ''pages/index.html'' = Some (''GET /{$}'', ''index'') \<and>
    page_route (''pages/'' @ d @ ''/index.html'') = Some (''GET /'' @ d @ ''/{$}'', d @ ''/index'') \<and>
    page_route (''pages/@'' @ h @ ''/index.html'') = Some (''GET '' @ h @ ''/{$}'', ''@'' @ h @ ''/index'')"
proof (intro conjI)
  show "page_route (''pages/'' @ n @ ''.html'') = Some (''GET /'' @ n, n)"
    by (rule page_route_plain) (use assms in auto)
  show "page_route ''pages/index.html'' = Some (''GET /{$}'', ''index'')"
    by code_simp
  have "split_file (d @ ''/'') = Some ([], ''/'' @ d @ ''/'', (''GET /'' @ d) @ ''/{$}'')"
    using assms(4) by (subst split_file_no_host) auto
  from page_route_index_gen [OF this]
  show "page_route (''pages/'' @ d @ ''/index.html'') = Some (''GET /'' @ d @ ''/{$}'', d @ ''/index'')"
    by simp
  have "split_file ((CHR ''@'' # h) @ ''/'') = Some (h, ''/'', (''GET '' @ h) @ ''/{$}'')"
    using split_file_host [of "[]" h "[]"] assms(5) by simp
  from page_route_index_gen [OF this]
  show "page_route (''pages/@'' @ h @ ''/index.html'') = Some (''GET '' @ h @ ''/{$}'', ''@'' @ h @ ''/index'')"
    by simp
qed

theorem page_route_forms_witness:
  "page_route ''pages/user/login.html'' = Some (''GET /user/login'', ''user/login'') \<and>
   page_route ''pages/admin/index.html'' = Some (''GET /admin/{$}'', ''admin/index'') \<and>
   page_route ''pages/@abc.com/index.html'' = Some (''GET abc.com/{$}'', ''@abc.com/index'')"
  using page_route_forms [of "''user/login''" "''admin''" "''abc.com''"]
  by (simp add: has_suffix_def)

end
