(* ===== verification/Http.thy ===== *)
theory Http
  imports Prelude
begin

text \<open>
  The part of \<open>net/http\<close> and \<open>net/textproto\<close> that xun stands on: header maps with their
  canonical keys, the request fields the code reads, and the server's response writer
  with its one-shot status line.
\<close>

section \<open>Header maps\<close>

type_synonym header = "string \<Rightarrow> string list option"

text \<open>\<open>textproto.CanonicalMIMEHeaderKey\<close>\<close>

definition is_token_char :: "char \<Rightarrow> bool" where
  "is_token_char c \<longleftrightarrow>
     (48 \<le> byte_of c \<and> byte_of c \<le> 57) \<or> (65 \<le> byte_of c \<and> byte_of c \<le> 90) \<or>
     (97 \<le> byte_of c \<and> byte_of c \<le> 122) \<or>
     c \<in> set [CHR ''!'', CHR ''#'', CHR ''$'', CHR ''%'', CHR ''&'', CHR 0x27, CHR ''*'', CHR ''+'',
              CHR ''-'', CHR ''.'', CHR ''^'', CHR ''_'', CHR 0x60, CHR ''|'', CHR ''~'']"

fun canon_from :: "bool \<Rightarrow> string \<Rightarrow> string" where
  "canon_from up [] = []"
| "canon_from up (c # cs) =
     (if up then upper_char c else lower_char c) # canon_from (c = CHR ''-'') cs"

definition canonical_key :: "string \<Rightarrow> string" where
  "canonical_key k = (if list_all is_token_char k then canon_from True k else k)"

definition hdr_get :: "header \<Rightarrow> string \<Rightarrow> string" where
  "hdr_get h k = (case h (canonical_key k) of Some (v # vs) \<Rightarrow> v | _ \<Rightarrow> [])"

definition hdr_set :: "header \<Rightarrow> string \<Rightarrow> string \<Rightarrow> header" where
  "hdr_set h k v = h(canonical_key k := Some [v])"

definition hdr_add :: "header \<Rightarrow> string \<Rightarrow> string \<Rightarrow> header" where
  "hdr_add h k v =
     h(canonical_key k := Some ((case h (canonical_key k) of None \<Rightarrow> [] | Some vs \<Rightarrow> vs) @ [v]))"

definition hdr_del :: "header \<Rightarrow> string \<Rightarrow> header" where
  "hdr_del h k = h(canonical_key k := None)"

text \<open>The built-in \<open>delete(h, k)\<close>, which does not canonicalise.\<close>

definition map_delete :: "header \<Rightarrow> string \<Rightarrow> header" where
  "map_delete h k = h(k := None)"

text \<open>
  The interface the rest of the code uses: a client that sets, deletes and reads fields by
  any spelling of their names sees the last value written.
\<close>

locale header_store =
  fixes get :: "'h \<Rightarrow> string \<Rightarrow> string"
    and set_field :: "'h \<Rightarrow> string \<Rightarrow> string \<Rightarrow> 'h"
    and del :: "'h \<Rightarrow> string \<Rightarrow> 'h"
    and same :: "string \<Rightarrow> string \<Rightarrow> bool"
  assumes get_set: "get (set_field h k v) k' = (if same k k' then v else get h k')"
    and get_del: "get (del h k) k' = (if same k k' then [] else get h k')"
    and same_refl: "same k k"
begin

text \<open>\<open>Context.WriteHeader\<close> in terms of the interface: the empty value deletes.\<close>

definition put :: "'h \<Rightarrow> string \<Rightarrow> string \<Rightarrow> 'h" where
  "put h k v = (if v = [] then del h k else set_field h k v)"

lemma get_put: "get (put h k v) k' = (if same k k' then v else get h k')"
  by (simp add: put_def get_set get_del)

lemma get_put_same [simp]: "get (put h k v) k = v"
  by (simp add: get_put same_refl)

lemma put_put_get: "get (put (put h k v) k w) k' = get (put h k w) k'"
  by (simp add: get_put)

end

definition same_key :: "string \<Rightarrow> string \<Rightarrow> bool" where
  "same_key a b \<longleftrightarrow> canonical_key a = canonical_key b"

interpretation hdr: header_store hdr_get hdr_set hdr_del same_key
  by unfold_locales (simp_all add: hdr_get_def hdr_set_def hdr_del_def same_key_def)

section \<open>Requests\<close>

text \<open>
  The fields of \<open>http.Request\<close> the code reads. \<open>r_path\<close> is \<open>URL.Path\<close>, \<open>r_uri\<close> is
  \<open>URL.RequestURI()\<close>, \<open>r_tls\<close> is \<open>TLS != nil\<close>, \<open>r_cookies\<close> the cookies as
  \<open>Request.Cookies\<close> parses them.
\<close>

record request =
  r_method :: string
  r_host :: string
  r_path :: string
  r_uri :: string
  r_url_host :: string
  r_proto :: string
  r_remote :: string
  r_header :: header
  r_tls :: bool
  r_cookies :: "(string \<times> string) list"

definition req_cookie :: "request \<Rightarrow> string \<Rightarrow> string option" where
  "req_cookie r name = (if name = [] then None else map_of (r_cookies r) name)"

definition plain_request :: "string \<Rightarrow> string \<Rightarrow> request" where
  "plain_request m p =
     \<lparr>r_method = m, r_host = ''localhost'', r_path = p, r_uri = p, r_url_host = [],
      r_proto = ''HTTP/1.1'', r_remote = ''10.0.0.1:1234'', r_header = Map.empty,
      r_tls = False, r_cookies = []\<rparr>"

section \<open>The server's response writer\<close>

text \<open>
  \<open>http.response\<close>: the header map the handler edits, the status line once it is sent with
  the header map as it was then, the informational responses, the body bytes accepted.
  \<open>w_room\<close> bounds the bytes the connection still takes (\<open>None\<close>: no bound), so that a
  write can fail; \<open>w_head\<close> says that the request was HEAD, \<open>w_flusher\<close> that the writer
  implements \<open>http.Flusher\<close>.
\<close>

record http_rw =
  w_header :: header
  w_status :: "int option"
  w_sent_header :: header
  w_infos :: "int list"
  w_body :: string
  w_room :: "nat option"
  w_head :: bool
  w_flusher :: bool
  w_flushes :: nat

definition new_http_rw :: http_rw where
  "new_http_rw =
     \<lparr>w_header = Map.empty, w_status = None, w_sent_header = Map.empty, w_infos = [], w_body = [],
      w_room = None, w_head = False, w_flusher = True, w_flushes = 0\<rparr>"

text \<open>
  \<open>WriteHeader\<close>: superfluous calls are ignored, a code outside 100 to 999 panics, a 1xx
  other than 101 is sent as an informational response, anything else is the status line.
\<close>

definition http_write_header :: "int \<Rightarrow> http_rw \<Rightarrow> http_rw option" where
  "http_write_header c w =
     (if w_status w \<noteq> None then Some w
      else if c < 100 \<or> 999 < c then None
      else if c \<le> 199 \<and> c \<noteq> 101 then Some (w\<lparr>w_infos := w_infos w @ [c]\<rparr>)
      else Some (w\<lparr>w_status := Some c, w_sent_header := w_header w\<rparr>))"

definition body_allowed :: "int \<Rightarrow> bool" where
  "body_allowed c \<longleftrightarrow> \<not> (100 \<le> c \<and> c \<le> 199) \<and> c \<noteq> 204 \<and> c \<noteq> 304"

text \<open>\<open>Write\<close>: the number of bytes taken, the error if any, the new state.\<close>

definition http_write :: "string \<Rightarrow> http_rw \<Rightarrow> nat \<times> gerr option \<times> http_rw" where
  "http_write p w0 =
     (let w = (if w_status w0 = None
               then w0\<lparr>w_status := Some 200, w_sent_header := w_header w0\<rparr> else w0)
      in if p = [] then (0, None, w)
         else if \<not> body_allowed (the (w_status w)) then (0, Some (ErrMsg ''http: body not allowed''), w)
         else if w_head w then (length p, None, w)
         else (case w_room w of
                 None \<Rightarrow> (length p, None, w\<lparr>w_body := w_body w @ p\<rparr>)
               | Some k \<Rightarrow>
                   if length p \<le> k
                   then (length p, None, w\<lparr>w_body := w_body w @ p, w_room := Some (k - length p)\<rparr>)
                   else (k, Some (ErrMsg ''short write''),
                         w\<lparr>w_body := w_body w @ take k p, w_room := Some 0\<rparr>)))"

definition http_flush :: "http_rw \<Rightarrow> http_rw" where
  "http_flush w0 =
     (let w = (if w_status w0 = None
               then w0\<lparr>w_status := Some 200, w_sent_header := w_header w0\<rparr> else w0)
      in w\<lparr>w_flushes := Suc (w_flushes w)\<rparr>)"

lemma http_write_header_once:
  "w_status w = Some c \<Longrightarrow> http_write_header d w = Some w"
  by (simp add: http_write_header_def)

lemma http_write_header_panic_iff:
  "http_write_header c w = None \<longleftrightarrow> w_status w = None \<and> (c < 100 \<or> 999 < c)"
  by (auto simp: http_write_header_def)

lemma http_write_status:
  "http_write p w = (n, e, w') \<Longrightarrow>
     w_status w' = Some (case w_status w of None \<Rightarrow> 200 | Some c \<Rightarrow> c)"
  by (cases "w_status w")
     (auto simp: http_write_def Let_def split: if_splits option.splits)

lemma http_write_count: "http_write p w = (n, e, w') \<Longrightarrow> n \<le> length p"
  by (auto simp: http_write_def Let_def split: if_splits option.splits)

lemma http_write_header_map: "http_write p w = (n, e, w') \<Longrightarrow> w_header w' = w_header w"
  by (auto simp: http_write_def Let_def split: if_splits option.splits)

end
