(* ===== verification/Response.thy ===== *)
theory Response
  imports Http
begin

text \<open>
  The response writers of \<open>response_writer*.go\<close> and the compressors of \<open>compressor*.go\<close>:
  one record for \<open>stdResponseWriter\<close>, \<open>gzipResponseWriter\<close> and \<open>deflateResponseWriter\<close>
  (the latter two embed the first), with the operations of the \<open>ResponseWriter\<close>
  interface. The compression algorithms of \<open>compress/gzip\<close> and \<open>compress/flate\<close> are a
  parameter \<open>z\<close>: the bytes they have emitted after a history of calls.
\<close>

datatype rw_kind = StdW | GzipW | DeflateW

datatype zop = ZWrite string | ZFlush | ZClose

type_synonym compression = "rw_kind \<Rightarrow> zop list \<Rightarrow> string"

record rw =
  rw_kind :: rw_kind
  rw_under :: http_rw
  rw_sent :: nat
  rw_code :: int
  rw_zops :: "zop list"
  rw_zerr :: "gerr option"

section \<open>stdResponseWriter\<close>

text \<open>\<open>NewResponseWriter\<close>\<close>

definition new_response_writer :: "http_rw \<Rightarrow> rw" where
  "new_response_writer w =
     \<lparr>rw_kind = StdW, rw_under = w, rw_sent = 0, rw_code = 0, rw_zops = [], rw_zerr = None\<rparr>"

definition std_write_header :: "int \<Rightarrow> rw \<Rightarrow> rw option" where
  "std_write_header c w =
     (if rw_code w = 0
      then do {
        u \<leftarrow> http_write_header c (rw_under w);
        Some (w\<lparr>rw_code := c, rw_under := u\<rparr>)
      }
      else Some w)"

definition std_status_code :: "rw \<Rightarrow> int" where
  "std_status_code w = (if rw_code w = 0 then 200 else rw_code w)"

definition std_body_bytes_sent :: "rw \<Rightarrow> nat" where
  "std_body_bytes_sent w = rw_sent w"

definition std_write :: "string \<Rightarrow> rw \<Rightarrow> nat \<times> gerr option \<times> rw" where
  "std_write p w =
     (let (n, e, u) = http_write p (rw_under w)
      in (n, e, w\<lparr>rw_under := u, rw_sent := rw_sent w + n\<rparr>))"

definition std_flush :: "rw \<Rightarrow> rw" where
  "std_flush w =
     (if w_flusher (rw_under w) then w\<lparr>rw_under := http_flush (rw_under w)\<rparr> else w)"

definition std_close :: "rw \<Rightarrow> rw" where
  "std_close w = w"

section \<open>The compressing writers\<close>

text \<open>
  One call of the compressor \<open>w.w\<close>: the bytes it emits beyond those it had emitted go to
  the connection; an error of the connection is remembered and fails every later call.
\<close>

definition z_call :: "compression \<Rightarrow> zop \<Rightarrow> rw \<Rightarrow> gerr option \<times> rw" where
  "z_call z zo w =
     (case rw_zerr w of
        Some e \<Rightarrow> (Some e, w)
      | None \<Rightarrow>
          let old = z (rw_kind w) (rw_zops w);
              new = z (rw_kind w) (rw_zops w @ [zo]);
              out = drop (length old) new;
              w1 = w\<lparr>rw_zops := rw_zops w @ [zo]\<rparr>
          in if out = [] then (None, w1)
             else let (n, e, u) = http_write out (rw_under w)
                  in (e, w1\<lparr>rw_under := u, rw_zerr := e\<rparr>))"

definition gzip_write :: "compression \<Rightarrow> string \<Rightarrow> rw \<Rightarrow> nat \<times> gerr option \<times> rw" where
  "gzip_write z p w =
     (let (e, w1) = z_call z (ZWrite p) w;
          n = (if e = None then length p else 0)
      in (n, e, w1\<lparr>rw_sent := rw_sent w1 + n\<rparr>))"

definition gzip_close :: "compression \<Rightarrow> rw \<Rightarrow> rw" where
  "gzip_close z w = snd (z_call z ZClose w)"

definition gzip_flush :: "compression \<Rightarrow> rw \<Rightarrow> rw" where
  "gzip_flush z w = std_flush (snd (z_call z ZFlush w))"

definition deflate_write :: "compression \<Rightarrow> string \<Rightarrow> rw \<Rightarrow> nat \<times> gerr option \<times> rw" where
  "deflate_write z p w =
     (let (e, w1) = z_call z (ZWrite p) w;
          n = (if e = None then length p else 0)
      in (n, e, w1\<lparr>rw_sent := rw_sent w1 + n\<rparr>))"

definition deflate_close :: "compression \<Rightarrow> rw \<Rightarrow> rw" where
  "deflate_close z w = snd (z_call z ZClose w)"

definition deflate_flush :: "compression \<Rightarrow> rw \<Rightarrow> rw" where
  "deflate_flush z w = std_flush (snd (z_call z ZFlush w))"

section \<open>The interface ResponseWriter\<close>

text \<open>Dynamic dispatch: the methods of the writer that \<open>createWriter\<close> chose.\<close>

definition rw_write :: "compression \<Rightarrow> string \<Rightarrow> rw \<Rightarrow> nat \<times> gerr option \<times> rw" where
  "rw_write z p w =
     (case rw_kind w of StdW \<Rightarrow> std_write p w | GzipW \<Rightarrow> gzip_write z p w | DeflateW \<Rightarrow> deflate_write z p w)"

definition rw_close :: "compression \<Rightarrow> rw \<Rightarrow> rw" where
  "rw_close z w =
     (case rw_kind w of StdW \<Rightarrow> std_close w | GzipW \<Rightarrow> gzip_close z w | DeflateW \<Rightarrow> deflate_close z w)"

definition rw_flush :: "compression \<Rightarrow> rw \<Rightarrow> rw" where
  "rw_flush z w =
     (case rw_kind w of StdW \<Rightarrow> std_flush w | GzipW \<Rightarrow> gzip_flush z w | DeflateW \<Rightarrow> deflate_flush z w)"

definition rw_header :: "rw \<Rightarrow> header" where
  "rw_header w = w_header (rw_under w)"

definition rw_map_header :: "(header \<Rightarrow> header) \<Rightarrow> rw \<Rightarrow> rw" where
  "rw_map_header f w = w\<lparr>rw_under := (rw_under w)\<lparr>w_header := f (w_header (rw_under w))\<rparr>\<rparr>"

text \<open>
  What a handler may do to the writer, and a run of such calls; a run that panics is
  \<open>None\<close>.
\<close>

datatype rw_op = OpWriteHeader int | OpWrite string | OpFlush | OpClose

fun rw_run_with ::
  "(int \<Rightarrow> 'w \<Rightarrow> 'w option) \<Rightarrow> (string \<Rightarrow> 'w \<Rightarrow> nat \<times> gerr option \<times> 'w) \<Rightarrow>
   ('w \<Rightarrow> 'w) \<Rightarrow> ('w \<Rightarrow> 'w) \<Rightarrow> rw_op list \<Rightarrow> 'w \<Rightarrow> 'w option" where
  "rw_run_with wh wr fl cl [] w = Some w"
| "rw_run_with wh wr fl cl (OpWriteHeader c # ops) w =
     Option.bind (wh c w) (rw_run_with wh wr fl cl ops)"
| "rw_run_with wh wr fl cl (OpWrite p # ops) w = rw_run_with wh wr fl cl ops (snd (snd (wr p w)))"
| "rw_run_with wh wr fl cl (OpFlush # ops) w = rw_run_with wh wr fl cl ops (fl w)"
| "rw_run_with wh wr fl cl (OpClose # ops) w = rw_run_with wh wr fl cl ops (cl w)"

definition rw_run :: "compression \<Rightarrow> rw_op list \<Rightarrow> rw \<Rightarrow> rw option" where
  "rw_run z = rw_run_with std_write_header (rw_write z) (rw_flush z) (rw_close z)"

fun first_code :: "rw_op list \<Rightarrow> int" where
  "first_code [] = 0"
| "first_code (OpWriteHeader c # ops) = (if c = 0 then first_code ops else c)"
| "first_code (_ # ops) = first_code ops"

fun op_bytes :: "rw_op \<Rightarrow> nat" where
  "op_bytes (OpWrite p) = length p"
| "op_bytes _ = 0"

text \<open>
  The contract of the interface: the first status code is recorded and forwarded, later
  ones change nothing; writing, flushing and closing leave the code alone; the byte count
  grows by what a write reports.
\<close>

locale response_writer =
  fixes wh :: "int \<Rightarrow> 'w \<Rightarrow> 'w option"
    and wr :: "string \<Rightarrow> 'w \<Rightarrow> nat \<times> gerr option \<times> 'w"
    and fl :: "'w \<Rightarrow> 'w"
    and cl :: "'w \<Rightarrow> 'w"
    and code_of :: "'w \<Rightarrow> int"
    and sent_of :: "'w \<Rightarrow> nat"
  assumes wh_first: "code_of w = 0 \<Longrightarrow> wh c w = Some w' \<Longrightarrow> code_of w' = c \<and> sent_of w' = sent_of w"
    and wh_again: "code_of w \<noteq> 0 \<Longrightarrow> wh c w = Some w"
    and wr_code: "wr p w = (n, e, w') \<Longrightarrow> code_of w' = code_of w"
    and wr_sent: "wr p w = (n, e, w') \<Longrightarrow> sent_of w' = sent_of w + n \<and> n \<le> length p"
    and fl_frame: "code_of (fl w) = code_of w \<and> sent_of (fl w) = sent_of w"
    and cl_frame: "code_of (cl w) = code_of w \<and> sent_of (cl w) = sent_of w"
begin

lemma wr_frame: "code_of (snd (snd (wr p w))) = code_of w"
  "sent_of w \<le> sent_of (snd (snd (wr p w)))"
  "sent_of (snd (snd (wr p w))) \<le> sent_of w + length p"
  using wr_code [of p w "fst (wr p w)" "fst (snd (wr p w))" "snd (snd (wr p w))"]
    wr_sent [of p w "fst (wr p w)" "fst (snd (wr p w))" "snd (snd (wr p w))"] by auto

lemma wh_cases:
  assumes "wh c w = Some w'"
  shows "sent_of w' = sent_of w \<and> code_of w' = (if code_of w = 0 then c else code_of w)"
proof (cases "code_of w = 0")
  case True
  show ?thesis using wh_first [OF True assms] True by simp
next
  case False
  have "w' = w" using wh_again [OF False, of c] assms by (metis option.inject)
  with False show ?thesis by simp
qed

lemma run_code:
  "rw_run_with wh wr fl cl ops w = Some w' \<Longrightarrow>
     code_of w' = (if code_of w \<noteq> 0 then code_of w else first_code ops)"
proof (induction ops arbitrary: w)
  case (Cons op ops)
  obtain w1 where w1: "rw_run_with wh wr fl cl ops w1 = Some w'"
    "code_of w1 = (if code_of w \<noteq> 0 then code_of w else first_code [op])"
    using Cons.prems
    by (cases op) (auto simp: bind_eq_Some_conv wr_frame fl_frame cl_frame dest: wh_cases)
  show ?case
    using Cons.IH [OF w1(1)] w1(2) by (cases op) auto
qed simp

lemma run_sent:
  "rw_run_with wh wr fl cl ops w = Some w' \<Longrightarrow>
     sent_of w \<le> sent_of w' \<and> sent_of w' \<le> sent_of w + sum_list (map op_bytes ops)"
proof (induction ops arbitrary: w)
  case (Cons op ops)
  obtain w1 where "rw_run_with wh wr fl cl ops w1 = Some w'"
    "sent_of w \<le> sent_of w1" "sent_of w1 \<le> sent_of w + op_bytes op"
    using Cons.prems
    by (cases op) (auto simp: bind_eq_Some_conv wr_frame fl_frame cl_frame dest: wh_cases)
  with Cons.IH [of w1] show ?case by simp
qed simp

end

lemma z_call_frame:
  "z_call z zo w = (e, w') \<Longrightarrow> rw_code w' = rw_code w \<and> rw_sent w' = rw_sent w \<and> rw_kind w' = rw_kind w"
  by (auto simp: z_call_def Let_def split: option.splits if_splits prod.splits)

lemma snd_z_call_frame [simp]:
  "rw_code (snd (z_call z zo w)) = rw_code w" "rw_sent (snd (z_call z zo w)) = rw_sent w"
  "rw_kind (snd (z_call z zo w)) = rw_kind w"
  using z_call_frame [of z zo w "fst (z_call z zo w)" "snd (z_call z zo w)"] by simp_all

lemma std_flush_frame [simp]:
  "rw_code (std_flush w) = rw_code w" "rw_sent (std_flush w) = rw_sent w" "rw_kind (std_flush w) = rw_kind w"
  by (simp_all add: std_flush_def)

lemmas rw_defs =
  rw_write_def rw_close_def rw_flush_def std_write_def std_close_def
  gzip_write_def gzip_close_def gzip_flush_def deflate_write_def deflate_close_def deflate_flush_def

lemma rw_write_frame:
  assumes "rw_write z p w = (n, e, w')"
  shows "rw_code w' = rw_code w \<and> rw_kind w' = rw_kind w \<and> rw_sent w' = rw_sent w + n \<and> n \<le> length p"
proof (cases "rw_kind w")
  case StdW
  with assms show ?thesis
    by (auto simp: rw_defs Let_def http_write_count split: prod.splits)
qed (use assms in \<open>auto simp: rw_defs Let_def dest: z_call_frame split: prod.splits\<close>)

interpretation rwi: response_writer std_write_header "rw_write z" "rw_flush z" "rw_close z" rw_code rw_sent
  for z
proof unfold_locales
  fix w c w'
  show "rw_code w = 0 \<Longrightarrow> std_write_header c w = Some w' \<Longrightarrow> rw_code w' = c \<and> rw_sent w' = rw_sent w"
    by (auto simp: std_write_header_def bind_eq_Some_conv)
  show "rw_code w \<noteq> 0 \<Longrightarrow> std_write_header c w = Some w"
    by (simp add: std_write_header_def)
next
  fix p w n e w'
  assume "rw_write z p w = (n, e, w')"
  from rw_write_frame [OF this]
  show "rw_code w' = rw_code w" and "rw_sent w' = rw_sent w + n \<and> n \<le> length p" by auto
next
  fix w
  show "rw_code (rw_flush z w) = rw_code w \<and> rw_sent (rw_flush z w) = rw_sent w"
    by (cases "rw_kind w") (simp_all add: rw_defs)
  show "rw_code (rw_close z w) = rw_code w \<and> rw_sent (rw_close z w) = rw_sent w"
    by (cases "rw_kind w") (simp_all add: rw_defs)
qed

section \<open>Compressors and createWriter\<close>

datatype compressor = GzipCompressor | DeflateCompressor

definition accept_encoding :: "compressor \<Rightarrow> string" where
  "accept_encoding c = (case c of GzipCompressor \<Rightarrow> ''gzip'' | DeflateCompressor \<Rightarrow> ''deflate'')"

definition gzip_new :: "http_rw \<Rightarrow> rw" where
  "gzip_new w =
     (new_response_writer (w\<lparr>w_header := hdr_set (w_header w) ''Content-Encoding'' ''gzip''\<rparr>))
       \<lparr>rw_kind := GzipW\<rparr>"

definition deflate_new :: "http_rw \<Rightarrow> rw" where
  "deflate_new w =
     (new_response_writer (w\<lparr>w_header := hdr_set (w_header w) ''Content-Encoding'' ''deflate''\<rparr>))
       \<lparr>rw_kind := DeflateW\<rparr>"

definition compressor_new :: "compressor \<Rightarrow> http_rw \<Rightarrow> rw" where
  "compressor_new c w = (case c of GzipCompressor \<Rightarrow> gzip_new w | DeflateCompressor \<Rightarrow> deflate_new w)"

definition create_writer :: "compressor list \<Rightarrow> request \<Rightarrow> http_rw \<Rightarrow> rw" where
  "create_writer comps req w =
     (let accept = hdr_get (r_header req) ''Accept-Encoding'';
          stars = (CHR ''*'' \<in> set accept)
      in case find (\<lambda>c. stars \<or> str_contains accept (accept_encoding c)) comps of
           Some c \<Rightarrow> compressor_new c w
         | None \<Rightarrow> new_response_writer w)"

section \<open>Lemmas on the wire\<close>

lemma rw_run_simps [simp]:
  "rw_run z [] w = Some w"
  "rw_run z (OpWriteHeader c # ops) w = Option.bind (std_write_header c w) (rw_run z ops)"
  "rw_run z (OpWrite p # ops) w = rw_run z ops (snd (snd (rw_write z p w)))"
  "rw_run z (OpFlush # ops) w = rw_run z ops (rw_flush z w)"
  "rw_run z (OpClose # ops) w = rw_run z ops (rw_close z w)"
  by (simp_all add: rw_run_def)

lemma http_write_keeps_status:
  "w_status w = Some c \<Longrightarrow> w_status (snd (snd (http_write p w))) = Some c"
  using http_write_status [of p w "fst (http_write p w)" "fst (snd (http_write p w))"
      "snd (snd (http_write p w))"] by simp

lemma http_flush_status: "w_status (http_flush w) = Some (case w_status w of None \<Rightarrow> 200 | Some c \<Rightarrow> c)"
  by (simp add: http_flush_def Let_def split: option.splits)

lemma z_call_keeps_status:
  "w_status (rw_under w) = Some c \<Longrightarrow> w_status (rw_under (snd (z_call z zo w))) = Some c"
  by (auto simp: z_call_def Let_def dest: http_write_status split: option.splits prod.splits)

lemma std_flush_keeps_status:
  "w_status (rw_under w) = Some c \<Longrightarrow> w_status (rw_under (std_flush w)) = Some c"
  by (simp add: std_flush_def http_flush_status)

lemma rw_op_keeps_status:
  assumes "w_status (rw_under w) = Some c"
  shows "w_status (rw_under (snd (snd (rw_write z p w)))) = Some c"
    and "w_status (rw_under (rw_flush z w)) = Some c"
    and "w_status (rw_under (rw_close z w)) = Some c"
  using assms http_write_keeps_status [of "rw_under w" c p]
  by (cases "rw_kind w";
      simp add: rw_defs Let_def split_beta z_call_keeps_status std_flush_keeps_status)+

lemma std_write_header_keeps_status:
  "w_status (rw_under w) = Some c \<Longrightarrow>
     \<exists>w'. std_write_header d w = Some w' \<and> w_status (rw_under w') = Some c"
  by (auto simp: std_write_header_def http_write_header_def)

lemma rw_run_keeps_status:
  "w_status (rw_under w) = Some c \<Longrightarrow>
     \<exists>w'. rw_run z ops w = Some w' \<and> w_status (rw_under w') = Some c"
proof (induction ops arbitrary: w)
  case (Cons op ops)
  note keeps = rw_op_keeps_status [OF Cons.prems]
  show ?case
  proof (cases op)
    case (OpWriteHeader d)
    obtain w1 where "std_write_header d w = Some w1" "w_status (rw_under w1) = Some c"
      using std_write_header_keeps_status [OF Cons.prems] by blast
    with Cons.IH [of w1] show ?thesis by (simp add: OpWriteHeader)
  next
    case (OpWrite p)
    from Cons.IH [OF keeps(1)] show ?thesis by (simp add: OpWrite)
  next
    case OpFlush
    from Cons.IH [OF keeps(2)] show ?thesis by (simp add: OpFlush)
  next
    case OpClose
    from Cons.IH [OF keeps(3)] show ?thesis by (simp add: OpClose)
  qed
qed simp

lemma rw_run_code:
  "rw_run z ops w = Some w' \<Longrightarrow> rw_code w' = (if rw_code w \<noteq> 0 then rw_code w else first_code ops)"
  unfolding rw_run_def by (rule rwi.run_code)

section \<open>Properties\<close>

text \<open>
  C31: whatever a handler does with a fresh writer, of whichever kind, \<open>StatusCode\<close> reports
  the first status code it set (200 when it set none), and \<open>BodyBytesSent\<close> never exceeds
  the number of bytes handed to \<open>Write\<close>.
\<close>

theorem response_status_first_wins:
  assumes "rw_run z ops ((new_response_writer u)\<lparr>rw_kind := k\<rparr>) = Some w"
  shows "std_status_code w = (if first_code ops = 0 then 200 else first_code ops) \<and>
    std_body_bytes_sent w \<le> sum_list (map op_bytes ops)"
  using assms rwi.run_sent [of z ops "(new_response_writer u)\<lparr>rw_kind := k\<rparr>" w] rw_run_code [OF assms]
  by (simp add: new_response_writer_def std_status_code_def std_body_bytes_sent_def rw_run_def)

theorem response_status_first_wins_witness:
  "\<exists>w. rw_run (\<lambda>_ _. []) [OpWriteHeader 404, OpWrite ''gone'', OpWriteHeader 500]
      ((new_response_writer new_http_rw)\<lparr>rw_kind := StdW\<rparr>) = Some w \<and>
    std_status_code w = 404 \<and> std_body_bytes_sent w \<le> 4"
proof -
  obtain w where w: "rw_run (\<lambda>_ _. []) [OpWriteHeader 404, OpWrite ''gone'', OpWriteHeader 500]
      ((new_response_writer new_http_rw)\<lparr>rw_kind := StdW\<rparr>) = Some w"
    by (simp add: rw_run_def std_write_header_def new_response_writer_def new_http_rw_def
        http_write_header_def rw_defs http_write_def Let_def body_allowed_def)
  with response_status_first_wins [OF w] show ?thesis by auto
qed

text \<open>
  A handler that sets a final status code before anything else never panics on its
  writer, whatever it calls afterwards, and that code is both what \<open>StatusCode\<close> reports
  and what goes out on the status line.
\<close>

theorem response_status_on_the_wire:
  assumes "200 \<le> c" "c \<le> 999" "w_status u = None"
  shows "\<exists>w. rw_run z (OpWriteHeader c # ops) ((new_response_writer u)\<lparr>rw_kind := k\<rparr>) = Some w \<and>
    std_status_code w = c \<and> w_status (rw_under w) = Some c"
proof -
  let ?w0 = "(new_response_writer u)\<lparr>rw_kind := k\<rparr>"
  obtain w1 where w1: "std_write_header c ?w0 = Some w1" "w_status (rw_under w1) = Some c" "rw_code w1 = c"
    using assms by (simp add: std_write_header_def new_response_writer_def http_write_header_def)
  obtain w where w: "rw_run z ops w1 = Some w" "w_status (rw_under w) = Some c"
    using rw_run_keeps_status [OF w1(2)] by blast
  have "rw_code w = c" using rw_run_code [OF w(1)] w1(3) assms(1) by simp
  with w w1 assms(1) show ?thesis by (auto simp: rw_run_def std_status_code_def)
qed

theorem response_status_on_the_wire_witness:
  "\<exists>w. rw_run (\<lambda>_ _. []) [OpWriteHeader 403, OpWrite ''no'', OpClose]
      ((new_response_writer new_http_rw)\<lparr>rw_kind := GzipW\<rparr>) = Some w \<and>
    std_status_code w = 403 \<and> w_status (rw_under w) = Some 403"
  using response_status_on_the_wire [of 403 new_http_rw "\<lambda>_ _. []" "[OpWrite ''no'', OpClose]" GzipW]
  by (simp add: new_http_rw_def)

text \<open>
  The status that is reported and the one that was sent can differ: when the body is
  written first, the status line goes out as 200, and a status code set later is recorded
  by \<open>StatusCode\<close> (and so by the request log) although the client never sees it.
\<close>

theorem late_status_not_sent:
  assumes "w_status u = None" "c \<noteq> 0"
  shows "\<exists>w. rw_run z [OpWrite p, OpWriteHeader c] (new_response_writer u) = Some w \<and>
    std_status_code w = c \<and> w_status (rw_under w) = Some 200"
proof -
  obtain n e u' where u': "http_write p u = (n, e, u')" by (cases "http_write p u") auto
  from http_write_status [OF this] assms(1) have "w_status u' = Some 200" by simp
  with u' assms show ?thesis
    by (simp add: rw_run_def rw_defs new_response_writer_def std_write_header_def
        http_write_header_def std_status_code_def)
qed

theorem late_status_not_sent_witness:
  "\<exists>w. rw_run (\<lambda>_ _. []) [OpWrite ''partial'', OpWriteHeader 500] (new_response_writer new_http_rw) = Some w \<and>
    std_status_code w = 500 \<and> w_status (rw_under w) = Some 200"
  using late_status_not_sent [of new_http_rw 500] by (simp add: new_http_rw_def)

end
