(* ===== verification/ETag.thy ===== *)
theory ETag
  imports Response
begin

unbundle bit_operations_syntax

text \<open>
  Entity tags: \<open>etag.go\<close>. The tag of a content (CRC-32 in hexadecimal), the scanner of the
  \<open>If-None-Match\<close> field and the 304 response.
\<close>

section \<open>Computing a tag\<close>

text \<open>\<open>crc32.NewIEEE\<close>: the reflected polynomial \<open>0xEDB88320\<close>, one bit at a time.\<close>

fun crc_bits :: "nat \<Rightarrow> 32 word \<Rightarrow> 32 word" where
  "crc_bits 0 c = c"
| "crc_bits (Suc n) c =
     crc_bits n (if c AND 1 = 1 then drop_bit 1 c XOR 0xEDB88320 else drop_bit 1 c)"

definition crc_byte :: "32 word \<Rightarrow> char \<Rightarrow> 32 word" where
  "crc_byte c b = crc_bits 8 (c XOR word_of_nat (byte_of b))"

definition crc32 :: "string \<Rightarrow> 32 word" where
  "crc32 bs = NOT (foldl crc_byte (NOT 0) bs)"

text \<open>\<open>h.Sum(nil)\<close>: the four bytes of the sum, most significant first.\<close>

definition crc32_sum :: "string \<Rightarrow> string" where
  "crc32_sum bs =
     (let c = unat (crc32 bs)
      in [char_of (c div 2 ^ 24 mod 256), char_of (c div 2 ^ 16 mod 256), char_of (c div 2 ^ 8 mod 256), char_of (c mod 256)])"

definition hex_digit :: "nat \<Rightarrow> char" where
  "hex_digit n = (if n < 10 then char_of (48 + n) else char_of (87 + n))"

definition hex_encode :: "string \<Rightarrow> string" where
  "hex_encode bs = concat (map (\<lambda>b. [hex_digit (byte_of b div 16), hex_digit (byte_of b mod 16)]) bs)"

text \<open>
  The content of a reader is \<open>None\<close> when reading it fails; the hash is any function from
  the content to the digest.
\<close>

definition compute_etag_with :: "string option \<Rightarrow> (string \<Rightarrow> string) \<Rightarrow> string" where
  "compute_etag_with r h =
     (case r of None \<Rightarrow> [] | Some content \<Rightarrow> [DQUOTE] @ hex_encode (h content) @ [DQUOTE])"

definition compute_etag :: "string option \<Rightarrow> string" where
  "compute_etag r = compute_etag_with r crc32_sum"

section \<open>Scanning If-None-Match\<close>

definition is_ascii_space :: "char \<Rightarrow> bool" where
  "is_ascii_space c \<longleftrightarrow> c = SP \<or> c = TAB \<or> c = LF \<or> c = CR"

definition trim_string :: "string \<Rightarrow> string" where
  "trim_string = trim_by is_ascii_space"

definition etag_char :: "char \<Rightarrow> bool" where
  "etag_char c \<longleftrightarrow> byte_of c = 0x21 \<or> 0x23 \<le> byte_of c \<and> byte_of c \<le> 0x7E \<or> 0x80 \<le> byte_of c"

text \<open>The loop of \<open>scanETag\<close>: how far the closing quote is.\<close>

fun scan_close :: "string \<Rightarrow> nat option" where
  "scan_close [] = None"
| "scan_close (c # cs) =
     (if etag_char c then map_option Suc (scan_close cs)
      else if c = DQUOTE then Some 0 else None)"

definition scan_etag :: "string \<Rightarrow> string \<times> string" where
  "scan_etag s0 =
     (let s = trim_string s0;
          start = (if has_prefix s ''W/'' then 2 else 0)
      in if length (drop start s) < 2 \<or> s ! start \<noteq> DQUOTE then ([], [])
         else (case scan_close (drop (start + 1) s) of
                 None \<Rightarrow> ([], [])
               | Some k \<Rightarrow> (take (start + 1 + k + 1) s, drop (start + 1 + k + 1) s)))"

definition etag_weak_match :: "string \<Rightarrow> string \<Rightarrow> bool" where
  "etag_weak_match a b \<longleftrightarrow> trim_prefix a ''W/'' = trim_prefix b ''W/''"

lemma scan_close_bound: "scan_close s = Some k \<Longrightarrow> k < length s"
  by (induction s arbitrary: k) (auto split: if_splits)

lemma scan_etag_cases:
  assumes "scan_etag s = (e, r)" "e \<noteq> []"
  shows "e @ r = trim_string s" "length r < length s"
proof -
  from assms show 1: "e @ r = trim_string s"
    by (auto simp: scan_etag_def Let_def split: if_splits option.splits)
  have "length (e @ r) \<le> length s"
    unfolding 1 trim_string_def by (rule length_trim_by)
  with assms(2) show "length r < length s" by (cases e) auto
qed

text \<open>The loop of \<open>checkIfNoneMatch\<close>, against the tag the response carries.\<close>

function check_inm :: "string \<Rightarrow> string \<Rightarrow> bool" where
  "check_inm cur buf0 =
     (let buf = trim_string buf0
      in if buf = [] then False
         else if hd buf = CHR '','' then check_inm cur (tl buf)
         else if hd buf = CHR ''*'' then True
         else let (etag, remain) = scan_etag buf
              in if etag = [] then False
                 else if etag_weak_match etag cur then True
                 else check_inm cur remain)"
  by pat_completeness auto
termination
proof (relation "measure (\<lambda>(cur, buf). length buf)", goal_cases)
  case (2 cur buf0 x)
  have "length x \<le> length buf0" using 2(1) by (simp add: trim_string_def length_trim_by)
  moreover from 2 have "length (tl x) < length x" by (cases x) auto
  ultimately have "length (tl x) < length buf0" by linarith
  then show ?case by (simp del: length_tl)
next
  case (3 cur buf0 x xa etag remain)
  have "length x \<le> length buf0" using 3(1) by (simp add: trim_string_def length_trim_by)
  moreover have "length remain < length x" using 3 scan_etag_cases(2) [of x etag remain] by simp
  ultimately show ?case by simp
qed simp

declare check_inm.simps [simp del]

definition check_if_none_match :: "request \<Rightarrow> rw \<Rightarrow> bool" where
  "check_if_none_match r w =
     (let inm = hdr_get (r_header r) ''If-None-Match''
      in if inm = [] then False else check_inm (hdr_get (rw_header w) ''Etag'') inm)"

definition write_not_modified :: "rw \<Rightarrow> rw option" where
  "write_not_modified w =
     (let h1 = map_delete (map_delete (map_delete (rw_header w) ''Content-Type'') ''Content-Length'')
                 ''Content-Encoding'';
          h2 = (if hdr_get h1 ''Etag'' \<noteq> [] then map_delete h1 ''Last-Modified'' else h1)
      in std_write_header 304 (rw_map_header (\<lambda>_. h2) w))"

definition write_if_none_match :: "request \<Rightarrow> rw \<Rightarrow> (bool \<times> rw) option" where
  "write_if_none_match r w =
     (if r_method r = ''GET'' \<or> r_method r = ''HEAD''
      then if check_if_none_match r w
           then do { w' \<leftarrow> write_not_modified w; Some (True, w') }
           else Some (False, w)
      else Some (False, w))"

section \<open>Valid tags\<close>

definition opaque_tag :: "string \<Rightarrow> bool" where
  "opaque_tag e \<longleftrightarrow> (\<exists>t. e = DQUOTE # t @ [DQUOTE] \<and> list_all etag_char t)"

definition valid_etag :: "string \<Rightarrow> bool" where
  "valid_etag e \<longleftrightarrow> opaque_tag e \<or> (\<exists>o'. e = ''W/'' @ o' \<and> opaque_tag o')"

lemma etag_char_not_quote [simp]: "\<not> etag_char DQUOTE"
  by (simp add: etag_char_def byte_of_def)

lemma scan_close_tag: "list_all etag_char t \<Longrightarrow> scan_close (t @ DQUOTE # r) = Some (length t)"
  by (induction t) auto

lemma scan_close_Some:
  "scan_close s = Some k \<Longrightarrow> list_all etag_char (take k s) \<and> s ! k = DQUOTE \<and> k < length s"
  by (induction s arbitrary: k) (auto split: if_splits)

lemma valid_etag_ends: "valid_etag e \<Longrightarrow> e \<noteq> [] \<and> hd e \<in> {DQUOTE, CHR ''W''} \<and> last e = DQUOTE"
  by (auto simp: valid_etag_def opaque_tag_def)

lemma scan_etag_trimmed:
  assumes "valid_etag e" "trim_string (e @ r) = e @ r"
  shows "scan_etag (e @ r) = (e, r)"
proof -
  from assms(1) consider (strong) t where "e = DQUOTE # t @ [DQUOTE]" "list_all etag_char t"
    | (weak) t where "e = ''W/'' @ DQUOTE # t @ [DQUOTE]" "list_all etag_char t"
    by (auto simp: valid_etag_def opaque_tag_def)
  then show ?thesis
  proof cases
    case strong
    then show ?thesis using assms(2) scan_close_tag [of t r]
      by (simp add: scan_etag_def)
  next
    case weak
    then show ?thesis using assms(2) scan_close_tag [of t r]
      by (simp add: scan_etag_def Let_def numeral_eq_Suc)
  qed
qed

lemma trim_string_head:
  assumes "x \<noteq> []" "\<not> is_ascii_space (hd x)" "\<not> is_ascii_space (last x)"
  shows "trim_string (x @ r) = x @ trim_right is_ascii_space r"
proof -
  have "dropWhile is_ascii_space (x @ r) = x @ r"
    using assms(1,2) by (cases x) auto
  moreover have "trim_right is_ascii_space (x @ r) = x @ trim_right is_ascii_space r"
  proof -
    have "dropWhile is_ascii_space (rev r @ rev x) =
        (if \<exists>c\<in>set r. \<not> is_ascii_space c then dropWhile is_ascii_space (rev r) @ rev x else rev x)"
      using assms by (auto simp: dropWhile_append hd_rev dropWhile_eq_self_iff)
    then show ?thesis by (auto simp: trim_right_def)
  qed
  ultimately show ?thesis by (simp add: trim_string_def trim_by_def)
qed


lemma check_inm_trim: "trim_string a = trim_string b \<Longrightarrow> check_inm cur a = check_inm cur b"
  by (simp add: check_inm.simps [of cur a] check_inm.simps [of cur b])

lemma check_inm_Nil: "check_inm cur [] = False"
  by (simp add: check_inm.simps [of cur "[]"] trim_string_def)

lemma check_inm_tag:
  assumes "valid_etag e" "trim_string (e @ r) = e @ r"
  shows "check_inm cur (e @ r) = (etag_weak_match e cur \<or> check_inm cur r)"
  using assms valid_etag_ends [OF assms(1)] scan_etag_trimmed [OF assms]
  by (auto simp: check_inm.simps [of cur "e @ r"] Let_def)

lemma check_inm_comma:
  assumes "trim_string (CHR '','' # r) = CHR '','' # r"
  shows "check_inm cur (CHR '','' # r) = check_inm cur r"
  using assms by (simp add: check_inm.simps [of cur "CHR '','' # r"])

lemma join_tags_ends:
  assumes "ts \<noteq> []" "\<And>t. t \<in> set ts \<Longrightarrow> valid_etag t"
  shows "go_join ts '', '' \<noteq> [] \<and> hd (go_join ts '', '') \<in> {DQUOTE, CHR ''W''} \<and>
    last (go_join ts '', '') = DQUOTE"
  using assms
proof (induction ts "'', ''" rule: go_join.induct)
  case (3 x y ys)
  with valid_etag_ends [of x] show ?case by (auto simp: hd_append)
qed (auto dest: valid_etag_ends)

lemma trim_string_id:
  "x \<noteq> [] \<Longrightarrow> \<not> is_ascii_space (hd x) \<Longrightarrow> \<not> is_ascii_space (last x) \<Longrightarrow> trim_string x = x"
  by (simp add: trim_string_def trim_by_id)

lemma check_inm_list:
  assumes "\<And>t. t \<in> set ts \<Longrightarrow> valid_etag t"
  shows "check_inm cur (go_join ts '', '') = (\<exists>t\<in>set ts. etag_weak_match t cur)"
  using assms
proof (induction ts "'', ''" rule: go_join.induct)
  case 1
  then show ?case by (simp add: check_inm_Nil)
next
  case (2 x)
  then have "valid_etag x" by simp
  with valid_etag_ends [OF this] check_inm_tag [of x "[]" cur] show ?case
    by (auto simp: check_inm_Nil trim_string_id is_ascii_space_def)
next
  case (3 x y ys)
  let ?r = "go_join (y # ys) '', ''"
  have vx: "valid_etag x" using 3 by simp
  have r: "?r \<noteq> []" "hd ?r \<in> {DQUOTE, CHR ''W''}" "last ?r = DQUOTE"
    using join_tags_ends [of "y # ys"] 3 by auto
  have "trim_string (x @ '', '' @ ?r) = x @ '', '' @ ?r"
    using valid_etag_ends [OF vx] r by (intro trim_string_id) (auto simp: is_ascii_space_def)
  then have "check_inm cur (x @ '', '' @ ?r) = (etag_weak_match x cur \<or> check_inm cur ('', '' @ ?r))"
    by (rule check_inm_tag [OF vx])
  also have "check_inm cur ('', '' @ ?r) = check_inm cur ('' '' @ ?r)"
    using check_inm_comma [of "'' '' @ ?r" cur] r by (simp add: trim_string_id is_ascii_space_def)
  also have "trim_string ('' '' @ ?r) = trim_string ?r"
    by (simp add: trim_string_def trim_by_def is_ascii_space_def)
  then have "check_inm cur ('' '' @ ?r) = check_inm cur ?r" by (rule check_inm_trim)
  also have "check_inm cur ?r = (\<exists>t\<in>set (y # ys). etag_weak_match t cur)"
    using 3 by simp
  finally show ?case by simp
qed

lemma hex_digit_etag_char: "n < 16 \<Longrightarrow> etag_char (hex_digit n)"
  by (auto simp: hex_digit_def etag_char_def byte_of_def)

lemma hex_encode_etag_chars: "list_all etag_char (hex_encode bs)"
proof (induction bs)
  case (Cons b bs)
  have "byte_of b div 16 < 16" "byte_of b mod 16 < 16"
    using byte_of_less_256 [of b] by (auto simp: less_mult_imp_div_less)
  with Cons show ?case by (simp add: hex_encode_def hex_digit_etag_char)
qed (simp add: hex_encode_def)

lemma compute_etag_valid: "valid_etag (compute_etag_with (Some c) h)"
  using hex_encode_etag_chars
  by (auto simp: compute_etag_with_def valid_etag_def opaque_tag_def)

section \<open>Properties\<close>

text \<open>
  C28: \<open>scanETag\<close> finds exactly the valid tags: what it returns is a valid tag followed by the
  rest of the trimmed input, and a valid tag at the head of a trimmed input is found whole.
\<close>

theorem scan_etag_correct:
  assumes "trim_string s = s"
  shows "scan_etag s = (e, r) \<and> e \<noteq> [] \<longleftrightarrow> valid_etag e \<and> s = e @ r"
proof
  assume h: "scan_etag s = (e, r) \<and> e \<noteq> []"
  then have "s = e @ r" using scan_etag_cases(1) [of s e r] assms by simp
  moreover have "valid_etag e"
  proof -
    define start where "start = (if has_prefix s ''W/'' then 2 else 0 :: nat)"
    have sc: "scan_etag s =
        (if length (drop start s) < 2 \<or> s ! start \<noteq> DQUOTE then ([], [])
         else (case scan_close (drop (start + 1) s) of
                 None \<Rightarrow> ([], [])
               | Some k \<Rightarrow> (take (start + 1 + k + 1) s, drop (start + 1 + k + 1) s)))"
      by (simp only: scan_etag_def Let_def start_def assms)
    from h obtain k where k: "scan_close (drop (start + 1) s) = Some k"
      and e: "e = take (start + 1 + k + 1) s"
      and q: "\<not> length (drop start s) < 2" "s ! start = DQUOTE"
      unfolding sc by (auto simp del: length_drop split: if_splits option.splits)
    from scan_close_Some [OF k]
    have t: "list_all etag_char (take k (drop (start + 1) s))"
      "drop (start + 1) s ! k = DQUOTE" "k < length (drop (start + 1) s)" by auto
    have "drop start s = DQUOTE # drop (start + 1) s"
      using q by (simp add: Cons_nth_drop_Suc [symmetric])
    moreover have "take (Suc k) (drop (start + 1) s) = take k (drop (start + 1) s) @ [DQUOTE]"
      using t(2,3) by (simp add: take_Suc_conv_app_nth)
    ultimately have "take (k + 2) (drop start s) = DQUOTE # take k (drop (start + 1) s) @ [DQUOTE]"
      by simp
    with t(1) have o: "opaque_tag (take (k + 2) (drop start s))" by (auto simp: opaque_tag_def)
    have "e = take start s @ take (k + 2) (drop start s)"
      unfolding e by (simp add: take_add [symmetric] add.commute add.left_commute)
    moreover have "take start s = [] \<or> take start s = ''W/''"
      by (auto simp: start_def has_prefix_def numeral_2_eq_2)
    ultimately show ?thesis using o by (auto simp: valid_etag_def)
  qed
  ultimately show "valid_etag e \<and> s = e @ r" by simp
next
  assume h: "valid_etag e \<and> s = e @ r"
  with assms scan_etag_trimmed [of e r] valid_etag_ends [of e] show "scan_etag s = (e, r) \<and> e \<noteq> []"
    by auto
qed

theorem scan_etag_correct_witness:
  "scan_etag [DQUOTE, CHR ''a'', DQUOTE, CHR '',''] = ([DQUOTE, CHR ''a'', DQUOTE], '','')"
proof -
  have t: "trim_string [DQUOTE, CHR ''a'', DQUOTE, CHR '',''] = [DQUOTE, CHR ''a'', DQUOTE, CHR '','']"
    by (rule trim_string_id) (simp_all add: is_ascii_space_def)
  have "valid_etag [DQUOTE, CHR ''a'', DQUOTE]"
    by (auto simp: valid_etag_def opaque_tag_def etag_char_def byte_of_def intro!: exI [of _ "''a''"])
  with scan_etag_correct [OF t, of "[DQUOTE, CHR ''a'', DQUOTE]" "'',''"] show ?thesis by simp
qed

text \<open>
  C29: a GET or HEAD request whose \<open>If-None-Match\<close> lists valid tags gets 304 exactly when one
  of them weakly matches the tag of the response; the 304 response drops the content
  headers. Any other method leaves the response alone.
\<close>

theorem write_if_none_match_spec:
  assumes "\<And>t. t \<in> set ts \<Longrightarrow> valid_etag t" and "ts \<noteq> []"
    and "hdr_get (r_header r) ''If-None-Match'' = go_join ts '', ''"
    and "rw_code w = 0" and "w_status (rw_under w) = None"
  shows "\<exists>w'. write_if_none_match r w =
      Some (r_method r \<in> {''GET'', ''HEAD''} \<and>
            (\<exists>t\<in>set ts. etag_weak_match t (hdr_get (rw_header w) ''Etag'')), w') \<and>
    (if r_method r \<in> {''GET'', ''HEAD''} \<and> (\<exists>t\<in>set ts. etag_weak_match t (hdr_get (rw_header w) ''Etag''))
     then w_status (rw_under w') = Some 304 \<and> rw_code w' = 304 \<and>
       (\<forall>k \<in> {''Content-Type'', ''Content-Length'', ''Content-Encoding''}. w_sent_header (rw_under w') k = None)
     else w' = w)"
proof -
  have "go_join ts '', '' \<noteq> []" using join_tags_ends [OF assms(2,1)] by simp
  then have c: "check_if_none_match r w = (\<exists>t\<in>set ts. etag_weak_match t (hdr_get (rw_header w) ''Etag''))"
    using check_inm_list [OF assms(1)] assms(3) by (simp add: check_if_none_match_def)
  have nm: "\<exists>w'. write_not_modified w = Some w' \<and> w_status (rw_under w') = Some 304 \<and> rw_code w' = 304 \<and>
      (\<forall>k \<in> {''Content-Type'', ''Content-Length'', ''Content-Encoding''}. w_sent_header (rw_under w') k = None)"
    using assms(4,5)
    by (simp add: write_not_modified_def Let_def std_write_header_def rw_map_header_def
        http_write_header_def map_delete_def)
  show ?thesis using nm by (auto simp: write_if_none_match_def c)
qed

theorem write_if_none_match_spec_witness:
  "\<exists>w'. write_if_none_match
      ((plain_request ''GET'' ''/a'')\<lparr>r_header := hdr_set Map.empty ''If-None-Match'' (compute_etag (Some ''body''))\<rparr>)
      (rw_map_header (\<lambda>h. hdr_set h ''ETag'' (compute_etag (Some ''body''))) (new_response_writer new_http_rw))
    = Some (True, w') \<and> w_status (rw_under w') = Some 304"
proof -
  let ?e = "compute_etag (Some ''body'')"
  let ?r = "(plain_request ''GET'' ''/a'')\<lparr>r_header := hdr_set Map.empty ''If-None-Match'' ?e\<rparr>"
  let ?w = "rw_map_header (\<lambda>h. hdr_set h ''ETag'' ?e) (new_response_writer new_http_rw)"
  have same: "same_key ''ETag'' ''Etag''" by code_simp
  have et: "hdr_get (rw_header ?w) ''Etag'' = ?e"
    using same hdr.get_set [of Map.empty "''ETag''" ?e "''Etag''"]
    by (simp add: rw_header_def rw_map_header_def new_response_writer_def new_http_rw_def)
  have inm: "hdr_get (r_header ?r) ''If-None-Match'' = go_join [?e] '', ''"
    using hdr.get_set [of Map.empty "''If-None-Match''" ?e "''If-None-Match''"] by (simp add: same_key_def)
  have "valid_etag ?e" unfolding compute_etag_def by (rule compute_etag_valid)
  then show ?thesis
    using write_if_none_match_spec [of "[?e]" ?r ?w] inm et
    by (auto simp: etag_weak_match_def plain_request_def rw_map_header_def new_response_writer_def new_http_rw_def)
qed

end
