(* ===== verification/Mime.thy ===== *)
theory Mime
  imports Http
begin

text \<open>
  Media types: \<open>mime.go\<close>, and the \<open>Accept\<close> and \<open>Accept-Language\<close> fields as
  \<open>context.go\<close> reads them. \<open>mime.TypeByExtension\<close> and \<open>http.DetectContentType\<close> read
  tables of the machine, and are parameters of \<open>get_mime_type\<close>.
\<close>

record mime =
  m_type :: string
  m_sub :: string

definition new_mime_type :: "string \<Rightarrow> mime" where
  "new_mime_type t =
     (let items = go_split t (CHR ''/'')
      in \<lparr>m_type = hd items, m_sub = (if length items > 1 then items ! 1 else ''*'')\<rparr>)"

definition mime_match :: "mime \<Rightarrow> mime \<Rightarrow> bool" where
  "mime_match m accept =
     (if m_type m \<noteq> m_type accept \<and> (m_type m \<noteq> ''*'' \<and> m_type accept \<noteq> ''*'') then False
      else if m_sub m = m_sub accept \<or> (m_sub m = ''*'' \<or> m_sub accept = ''*'') then True
      else False)"

definition mime_string :: "mime \<Rightarrow> string" where
  "mime_string m = m_type m @ ''/'' @ m_sub m"

text \<open>\<open>filepath.Ext\<close> and \<open>path.Ext\<close>: from the last dot of the last element.\<close>

definition path_ext :: "string \<Rightarrow> string" where
  "path_ext p =
     (let base = takeWhile (\<lambda>c. c \<noteq> CHR ''/'') (rev p);
          tail = takeWhile (\<lambda>c. c \<noteq> CHR ''.'') base
      in if length tail < length base then CHR ''.'' # rev tail else [])"

definition get_mime_type ::
  "(string \<Rightarrow> string) \<Rightarrow> (string \<Rightarrow> string) \<Rightarrow> string \<Rightarrow> string \<Rightarrow> mime \<times> string" where
  "get_mime_type by_ext detect file buf =
     (let mt0 = by_ext (path_ext file);
          mt = (if mt0 = [] then detect buf else mt0)
      in case index_byte mt (CHR '';'') of
           None \<Rightarrow> (new_mime_type mt, ''; charset=utf-8'')
         | Some i \<Rightarrow> (new_mime_type (take i mt), drop i mt))"

section \<open>The Accept fields\<close>

definition accept_item :: "string \<Rightarrow> mime" where
  "accept_item o' =
     new_mime_type (trim_space (case index_byte o' (CHR '';'') of None \<Rightarrow> o' | Some n \<Rightarrow> take n o'))"

text \<open>\<open>Context.Accept\<close>\<close>

definition accept_types :: "request \<Rightarrow> mime list" where
  "accept_types r =
     (let accepted = hdr_get (r_header r) ''Accept''
      in if accepted = [] then [] else map accept_item (go_split accepted (CHR '','')))"

text \<open>\<open>Context.AcceptLanguage\<close>: \<open>strings.SplitN(_, ";", 2)[0]\<close>, trimmed of spaces.\<close>

definition accept_language :: "request \<Rightarrow> string list" where
  "accept_language r =
     (let accepted = hdr_get (r_header r) ''Accept-Language''
      in if accepted = [] then []
         else map (\<lambda>o'. trim_by (\<lambda>c. c = SP) (hd (go_split o' (CHR '';''))))
                (go_split accepted (CHR '','')))"

lemma new_mime_type_string:
  "CHR ''/'' \<notin> set (m_type m) \<Longrightarrow> CHR ''/'' \<notin> set (m_sub m) \<Longrightarrow> new_mime_type (mime_string m) = m"
  by (cases m) (simp add: new_mime_type_def mime_string_def go_split_append_sep go_split_no_sep)

lemma mime_match_refl [simp]: "mime_match m m"
  by (simp add: mime_match_def)

lemma mime_match_sym: "mime_match a b = mime_match b a"
  by (auto simp: mime_match_def)

lemma mime_match_any: "mime_match m \<lparr>m_type = ''*'', m_sub = ''*''\<rparr>"
  by (simp add: mime_match_def)

definition mime_char :: "char \<Rightarrow> bool" where
  "mime_char c \<longleftrightarrow> \<not> is_space c \<and> c \<noteq> CHR '','' \<and> c \<noteq> CHR '';''"

definition plain_mime :: "mime \<Rightarrow> bool" where
  "plain_mime m \<longleftrightarrow>
     list_all mime_char (m_type m) \<and> CHR ''/'' \<notin> set (m_type m) \<and>
     list_all mime_char (m_sub m) \<and> CHR ''/'' \<notin> set (m_sub m)"

lemma mime_char_simps [simp]:
  "mime_char CHR ''/''" "\<not> mime_char CHR '',''" "\<not> mime_char CHR '';''"
  by (simp_all add: mime_char_def)

lemma plain_mime_string:
  assumes "plain_mime m"
  shows "list_all mime_char (mime_string m)" "mime_string m \<noteq> []"
    "\<not> is_space (hd (mime_string m))" "\<not> is_space (last (mime_string m))"
proof -
  show all: "list_all mime_char (mime_string m)" and ne: "mime_string m \<noteq> []"
    using assms by (simp_all add: plain_mime_def mime_string_def)
  have "mime_char (hd (mime_string m))" "mime_char (last (mime_string m))"
    using all ne by (simp_all add: list_all_iff)
  then show "\<not> is_space (hd (mime_string m))" "\<not> is_space (last (mime_string m))"
    by (simp_all add: mime_char_def)
qed

lemma accept_item_render:
  assumes "plain_mime m" "list_all is_space ws" "q = [] \<or> hd q = CHR '';''"
  shows "accept_item (ws @ mime_string m @ q) = m"
proof -
  have nos: "CHR '';'' \<notin> set (ws @ mime_string m)"
    using list_all_not_in [OF plain_mime_string(1) [OF assms(1)]] list_all_not_in [OF assms(2)] by simp
  have cut: "(case index_byte (ws @ mime_string m @ q) (CHR '';'') of
      None \<Rightarrow> ws @ mime_string m @ q | Some n \<Rightarrow> take n (ws @ mime_string m @ q)) = ws @ mime_string m"
  proof (cases q)
    case Nil
    have "index_byte (ws @ mime_string m) (CHR '';'') = None"
      unfolding index_byte_None_iff by (rule nos)
    then show ?thesis by (simp add: Nil)
  next
    case (Cons x q')
    with assms(3) have "x = CHR '';''" by simp
    with index_byte_append_Cons [OF nos, of q'] show ?thesis by (simp add: Cons)
  qed
  have "dropWhile is_space (ws @ mime_string m) = mime_string m"
    by (rule dropWhile_skip) (use assms plain_mime_string in auto)
  moreover have "trim_right is_space (mime_string m) = mime_string m"
    by (rule trim_right_id) (use plain_mime_string [OF assms(1)] in simp)
  ultimately have "trim_space (ws @ mime_string m) = mime_string m"
    by (simp add: trim_space_def trim_by_def)
  with cut assms(1) show ?thesis
    using new_mime_type_string [of m]
    by (simp add: accept_item_def plain_mime_def)
qed

text \<open>
  An item of a well-formed \<open>Accept\<close> field: optional white space, the media range, and its
  parameters.
\<close>

fun render_accept :: "(string \<times> mime \<times> string) list \<Rightarrow> string list" where
  "render_accept [] = []"
| "render_accept ((ws, m, q) # is) =
     (ws @ mime_string m @ q) # render_accept is"

fun good_items :: "(string \<times> mime \<times> string) list \<Rightarrow> bool" where
  "good_items [] = True"
| "good_items ((ws, m, q) # is) =
     (plain_mime m \<and> list_all is_space ws \<and> (q = [] \<or> hd q = CHR '';'') \<and> CHR '','' \<notin> set q \<and>
      good_items is)"

lemma render_accept_no_comma:
  "good_items is \<Longrightarrow> x \<in> set (render_accept is) \<Longrightarrow> CHR '','' \<notin> set x"
proof (induction "is" rule: good_items.induct)
  case (2 ws m q "is")
  then have "CHR '','' \<notin> set (ws @ mime_string m @ q)"
    using list_all_not_in [OF plain_mime_string(1), of m "CHR '',''"] list_all_not_in [of is_space ws "CHR '',''"]
    by simp
  with 2 show ?case by auto
qed simp

lemma map_accept_item: "good_items is \<Longrightarrow> map accept_item (render_accept is) = map (\<lambda>(ws, m, q). m) is"
proof (induction "is" rule: good_items.induct)
  case (2 ws m q "is")
  with accept_item_render [of m ws q] show ?case by simp
qed simp

section \<open>Properties\<close>

text \<open>
  C26: \<open>Accept\<close> reads a well-formed field back: the media ranges in the order they are
  listed, without white space and parameters. Quality values do not reorder them and the
  case of the names is kept.
\<close>

theorem accept_types_roundtrip:
  assumes "good_items is" and "is \<noteq> []"
    and "hdr_get (r_header r) ''Accept'' = go_join (render_accept is) '',''"
  shows "accept_types r = map (\<lambda>(ws, m, q). m) is"
proof -
  have ne: "render_accept is \<noteq> []" using assms(2) by (cases "is") auto
  have "go_split (go_join (render_accept is) '','') (CHR '','') = render_accept is"
    by (rule go_split_join [OF ne]) (rule render_accept_no_comma [OF assms(1)])
  moreover have "go_join (render_accept is) '','' \<noteq> []"
    using assms(1,2) by (cases "is"; cases "render_accept (tl is)") (auto simp: mime_string_def)
  ultimately show ?thesis
    using map_accept_item [OF assms(1)] by (simp add: accept_types_def assms(3))
qed

theorem accept_types_roundtrip_witness:
  "accept_types ((plain_request ''GET'' ''/'')
      \<lparr>r_header := hdr_set Map.empty ''Accept'' ''TEXT/html;q=0.1, application/json''\<rparr>) =
    [\<lparr>m_type = ''TEXT'', m_sub = ''html''\<rparr>, \<lparr>m_type = ''application'', m_sub = ''json''\<rparr>]"
proof -
  let ?is = "[([], \<lparr>m_type = ''TEXT'', m_sub = ''html''\<rparr>, '';q=0.1''),
              ('' '', \<lparr>m_type = ''application'', m_sub = ''json''\<rparr>, [])]"
  have "good_items ?is" by (simp add: plain_mime_def mime_char_def is_space_def)
  then show ?thesis
    using accept_types_roundtrip [of ?is "(plain_request ''GET'' ''/'')
      \<lparr>r_header := hdr_set Map.empty ''Accept'' ''TEXT/html;q=0.1, application/json''\<rparr>"]
      hdr.get_set [of Map.empty "''Accept''" _ "''Accept''"]
    by (simp add: mime_string_def same_key_def)
qed

end
