(* ===== verification/Buffer.thy ===== *)
theory Buffer
  imports Prelude
begin

text \<open>
  The pool of reusable buffers, \<open>buffer_pool.go\<close>: a buffered channel of \<open>*bytes.Buffer\<close>,
  here a queue of buffer contents with the capacity of the channel. \<open>Get\<close> and \<open>Put\<close> use
  the non-blocking forms of receive and send.
\<close>

record pool =
  p_cap :: nat
  p_bufs :: "string list"

definition new_buffer_pool :: "nat \<Rightarrow> pool" where
  "new_buffer_pool n = \<lparr>p_cap = n, p_bufs = []\<rparr>"

definition pool_get :: "pool \<Rightarrow> string \<times> pool" where
  "pool_get bp =
     (case p_bufs bp of
        b # bs \<Rightarrow> (b, bp\<lparr>p_bufs := bs\<rparr>)
      | [] \<Rightarrow> ([], bp))"

definition pool_put :: "string \<Rightarrow> pool \<Rightarrow> pool" where
  "pool_put b bp =
     (let reset = []
      in if length (p_bufs bp) < p_cap bp then bp\<lparr>p_bufs := p_bufs bp @ [reset]\<rparr> else bp)"

text \<open>Every pooled buffer is empty, and the channel never holds more than its capacity.\<close>

definition pool_ok :: "pool \<Rightarrow> bool" where
  "pool_ok bp \<longleftrightarrow> (\<forall>b \<in> set (p_bufs bp). b = []) \<and> length (p_bufs bp) \<le> p_cap bp"

lemma pool_ok_new [inv_intros]: "pool_ok (new_buffer_pool n)"
  by (simp add: pool_ok_def new_buffer_pool_def)

lemma pool_ok_get [inv_intros]: "pool_ok bp \<Longrightarrow> pool_ok (snd (pool_get bp))"
  by (auto simp: pool_ok_def pool_get_def split: list.splits)

lemma pool_ok_put [inv_intros]: "pool_ok bp \<Longrightarrow> pool_ok (pool_put b bp)"
  by (auto simp: pool_ok_def pool_put_def Let_def)

lemma pool_get_empty: "pool_ok bp \<Longrightarrow> fst (pool_get bp) = []"
  by (auto simp: pool_ok_def pool_get_def split: list.splits)

lemma pool_cap_get [simp]: "p_cap (snd (pool_get bp)) = p_cap bp"
  by (simp add: pool_get_def split: list.splits)

lemma pool_cap_put [simp]: "p_cap (pool_put b bp) = p_cap bp"
  by (simp add: pool_put_def Let_def)

end
