(* ===== verification/Context.thy ===== *)
theory Context
  imports ETag Mime Buffer
begin

text \<open>
  The request context, \<open>context.go\<close>, with the types that meet in it: viewers, routing
  options (\<open>routing_option.go\<close>), handlers, middlewares and interceptors.

  A handler maps a context to the error it returns and the context it leaves; a run-time
  panic is \<open>None\<close>. A viewer is identified by its kind: a template viewer holds the number
  of its template, a viewer of the application a number of its own. What the viewers need
  from outside (encoders, templates, files, \<open>http.ServeContent\<close>) is the environment.
\<close>

record file_viewer =
  fv_path :: string
  fv_etag :: string
  fv_cache :: string

datatype viewer =
    JsonViewer
  | XmlViewer
  | StringViewer
  | HtmlViewer nat
  | TextViewer nat
  | FileViewer file_viewer
  | CustomViewer nat mime

text \<open>\<open>RoutingOptions\<close>: a nil metadata map is \<open>None\<close>.\<close>

record ropts =
  ro_metadata :: "(string \<Rightarrow> any option) option"
  ro_viewers :: "viewer list"

record ctx =
  c_req :: request
  c_rw :: rw
  c_pattern :: string
  c_options :: ropts
  c_viewers :: "viewer list"
  c_named :: "string \<Rightarrow> viewer option"
  c_temp :: "string \<Rightarrow> any option"
  c_pool :: pool

type_synonym handler = "ctx \<Rightarrow> (gerr option \<times> ctx) option"
type_synonym middleware = "handler \<Rightarrow> handler"

record interceptor =
  ic_referer :: "ctx \<Rightarrow> string"
  ic_redirect :: "ctx \<Rightarrow> string \<Rightarrow> int list \<Rightarrow> (bool \<times> ctx) option"

record view_model =
  vm_temp :: "string \<Rightarrow> any option"
  vm_data :: any

text \<open>An opened file: its bytes, its modification time, the error of \<open>Stat\<close>, whether it can seek.\<close>

record opened_file =
  f_content :: string
  f_mod_time :: nat
  f_stat_err :: "gerr option"
  f_seeker :: bool

record env =
  e_z :: compression
  e_json :: "any \<Rightarrow> gerr + string"
  e_xml :: "any \<Rightarrow> gerr + string"
  e_print :: "any \<Rightarrow> string"
  e_html :: "nat \<Rightarrow> view_model \<Rightarrow> gerr + string"
  e_text :: "nat \<Rightarrow> view_model \<Rightarrow> gerr + string"
  e_text_mime :: "nat \<Rightarrow> mime"
  e_text_charset :: "nat \<Rightarrow> string"
  e_open :: "string \<Rightarrow> opened_file option"
  e_serve_content :: "request \<Rightarrow> string \<Rightarrow> nat \<Rightarrow> string \<Rightarrow> rw \<Rightarrow> rw option"
  e_custom :: "nat \<Rightarrow> any \<Rightarrow> handler"
  e_interceptor :: "interceptor option"

section \<open>Writing through the context\<close>

definition write_status :: "int \<Rightarrow> ctx \<Rightarrow> ctx option" where
  "write_status code c =
     do { w \<leftarrow> std_write_header code (c_rw c); Some (c\<lparr>c_rw := w\<rparr>) }"

definition set_resp_header :: "string \<Rightarrow> string \<Rightarrow> ctx \<Rightarrow> ctx" where
  "set_resp_header k v c = c\<lparr>c_rw := rw_map_header (\<lambda>h. hdr_set h k v) (c_rw c)\<rparr>"

definition write_header :: "string \<Rightarrow> string \<Rightarrow> ctx \<Rightarrow> ctx" where
  "write_header k v c =
     (if v = [] then c\<lparr>c_rw := rw_map_header (\<lambda>h. hdr_del h k) (c_rw c)\<rparr>
      else set_resp_header k v c)"

definition resp_header :: "ctx \<Rightarrow> string \<Rightarrow> string" where
  "resp_header c k = hdr_get (rw_header (c_rw c)) k"

text \<open>\<open>TempData\<close>\<close>

definition ctx_get :: "ctx \<Rightarrow> string \<Rightarrow> any" where
  "ctx_get c key = (case c_temp c key of None \<Rightarrow> AnyNil | Some v \<Rightarrow> v)"

definition ctx_set :: "ctx \<Rightarrow> string \<Rightarrow> any \<Rightarrow> ctx" where
  "ctx_set c key v = c\<lparr>c_temp := (c_temp c)(key := Some v)\<rparr>"

definition redirect :: "env \<Rightarrow> string \<Rightarrow> int list \<Rightarrow> ctx \<Rightarrow> ctx option" where
  "redirect env url codes c =
     (let go_on = (\<lambda>c. write_status (case codes of code # _ \<Rightarrow> code | [] \<Rightarrow> 302)
                     (write_header ''Location'' url c))
      in case e_interceptor env of
           None \<Rightarrow> go_on c
         | Some ic \<Rightarrow>
             do {
               (done, c1) \<leftarrow> ic_redirect ic c url codes;
               if done then Some c1 else go_on c1
             })"

definition request_referer :: "env \<Rightarrow> ctx \<Rightarrow> string" where
  "request_referer env c =
     (let v = (case e_interceptor env of None \<Rightarrow> [] | Some ic \<Rightarrow> ic_referer ic c)
      in if v = [] then hdr_get (r_header (c_req c)) ''Referer'' else v)"

lemma resp_header_write:
  "resp_header (write_header k v c) k' = (if same_key k k' then v else resp_header c k')"
proof -
  have "rw_header (c_rw (write_header k v c)) = hdr.put (rw_header (c_rw c)) k v"
    by (simp add: write_header_def set_resp_header_def rw_header_def rw_map_header_def hdr.put_def)
  then show ?thesis by (simp add: resp_header_def hdr.get_put)
qed

lemma write_header_frame [simp]:
  "c_req (write_header k v c) = c_req c" "c_viewers (write_header k v c) = c_viewers c"
  "c_named (write_header k v c) = c_named c" "c_temp (write_header k v c) = c_temp c"
  "c_pool (write_header k v c) = c_pool c" "c_options (write_header k v c) = c_options c"
  "c_pattern (write_header k v c) = c_pattern c"
  "rw_code (c_rw (write_header k v c)) = rw_code (c_rw c)"
  "rw_kind (c_rw (write_header k v c)) = rw_kind (c_rw c)"
  "w_status (rw_under (c_rw (write_header k v c))) = w_status (rw_under (c_rw c))"
  by (simp_all add: write_header_def set_resp_header_def rw_map_header_def)

lemma write_status_fresh:
  "rw_code (c_rw c) = 0 \<Longrightarrow> w_status (rw_under (c_rw c)) = None \<Longrightarrow> 200 \<le> code \<Longrightarrow> code \<le> 999 \<Longrightarrow>
   write_status code c = Some (c\<lparr>c_rw := (c_rw c)\<lparr>rw_code := code,
     rw_under := (rw_under (c_rw c))\<lparr>w_status := Some code,
       w_sent_header := w_header (rw_under (c_rw c))\<rparr>\<rparr>\<rparr>)"
  by (simp add: write_status_def std_write_header_def http_write_header_def)

section \<open>Routing options\<close>

definition ro_get :: "ropts \<Rightarrow> string \<Rightarrow> any" where
  "ro_get ro name =
     (case ro_metadata ro of
        None \<Rightarrow> AnyNil
      | Some m \<Rightarrow> (case m name of None \<Rightarrow> AnyNil | Some v \<Rightarrow> v))"

definition ro_get_string :: "ropts \<Rightarrow> string \<Rightarrow> string" where
  "ro_get_string ro name =
     (case Option.bind (ro_metadata ro) (\<lambda>m. m name) of
        None \<Rightarrow> []
      | Some it \<Rightarrow> (case it of AnyString s \<Rightarrow> s | _ \<Rightarrow> []))"

definition ro_get_int :: "ropts \<Rightarrow> string \<Rightarrow> int" where
  "ro_get_int ro name =
     (case Option.bind (ro_metadata ro) (\<lambda>m. m name) of
        None \<Rightarrow> 0
      | Some it \<Rightarrow> (case it of AnyInt v \<Rightarrow> v | _ \<Rightarrow> 0))"

type_synonym routing_option = "ropts \<Rightarrow> ropts"

text \<open>The map that a write goes to: a new one when it is nil.\<close>

definition ro_map :: "ropts \<Rightarrow> (string \<Rightarrow> any option)" where
  "ro_map ro = (case ro_metadata ro of None \<Rightarrow> Map.empty | Some m \<Rightarrow> m)"

definition with_metadata :: "string \<Rightarrow> any \<Rightarrow> routing_option" where
  "with_metadata key v ro = ro\<lparr>ro_metadata := Some ((ro_map ro)(key := Some v))\<rparr>"

definition navigation_name :: string where "navigation_name = ''name''"
definition navigation_icon :: string where "navigation_icon = ''icon''"
definition navigation_access :: string where "navigation_access = ''access''"

definition with_navigation :: "string \<Rightarrow> string \<Rightarrow> string \<Rightarrow> routing_option" where
  "with_navigation name icon access ro =
     ro\<lparr>ro_metadata := Some ((ro_map ro)
          (navigation_name := Some (AnyString name), navigation_icon := Some (AnyString icon),
           navigation_access := Some (AnyString access)))\<rparr>"

definition with_viewer :: "viewer list \<Rightarrow> routing_option" where
  "with_viewer vs ro = ro\<lparr>ro_viewers := vs\<rparr>"

definition apply_options :: "routing_option list \<Rightarrow> ropts \<Rightarrow> ropts" where
  "apply_options opts ro = foldl (\<lambda>ro o'. o' ro) ro opts"

lemma ro_get_with_metadata:
  "ro_get (with_metadata k v ro) n = (if n = k then v else ro_get ro n)"
  by (simp add: ro_get_def with_metadata_def ro_map_def split: option.splits)

lemma ro_viewers_metadata [simp]:
  "ro_viewers (with_metadata k v ro) = ro_viewers ro"
  "ro_viewers (with_navigation a b d ro) = ro_viewers ro"
  by (simp_all add: with_metadata_def with_navigation_def)

end
