(* ===== verification/Viewers.thy ===== *)
theory Viewers
  imports Context
begin

text \<open>
  The viewers (\<open>viewer_*.go\<close>) and content negotiation (\<open>Context.View\<close>, \<open>getViewer\<close>).
\<close>

section \<open>Rendering through a pooled buffer\<close>

text \<open>\<open>bytes.Buffer.WriteTo\<close>: the error, what is left in the buffer, the writer.\<close>

definition buffer_write_to :: "compression \<Rightarrow> string \<Rightarrow> rw \<Rightarrow> gerr option \<times> string \<times> rw" where
  "buffer_write_to z b w =
     (if b = [] then (None, [], w)
      else let (m, e, w') = rw_write z b w
           in if e \<noteq> None then (e, drop m b, w')
              else if m \<noteq> length b then (Some (ErrMsg ''short write''), drop m b, w')
              else (None, [], w'))"

text \<open>
  The common body of the buffering viewers, after the content type is set: nothing for a
  HEAD request; otherwise take a buffer, encode into it, return an encoding error with
  nothing sent, send the buffer, and give it back to the pool on every path.
\<close>

definition render_pooled :: "env \<Rightarrow> (gerr + string) \<Rightarrow> handler" where
  "render_pooled env out c =
     (if r_method (c_req c) \<noteq> ''HEAD''
      then let (buf, p) = pool_get (c_pool c)
           in (case out of
                 Inl e \<Rightarrow> Some (Some e, c\<lparr>c_pool := pool_put buf p\<rparr>)
               | Inr s \<Rightarrow>
                   let (e, rest, w) = buffer_write_to (e_z env) (buf @ s) (c_rw c)
                   in Some (e, c\<lparr>c_rw := w, c_pool := pool_put rest p\<rparr>))
      else Some (None, c))"

definition render_json :: "env \<Rightarrow> any \<Rightarrow> handler" where
  "render_json env data c =
     render_pooled env (e_json env data) (set_resp_header ''Content-Type'' ''application/json'' c)"

definition render_xml :: "env \<Rightarrow> any \<Rightarrow> handler" where
  "render_xml env data c =
     render_pooled env (e_xml env data) (set_resp_header ''Content-Type'' ''text/xml; charset=utf-8'' c)"

definition render_html :: "env \<Rightarrow> nat \<Rightarrow> any \<Rightarrow> handler" where
  "render_html env t data c =
     render_pooled env (e_html env t \<lparr>vm_temp = c_temp c, vm_data = data\<rparr>)
       (set_resp_header ''Content-Type'' ''text/html; charset=utf-8'' c)"

definition render_text :: "env \<Rightarrow> nat \<Rightarrow> any \<Rightarrow> handler" where
  "render_text env t data c =
     render_pooled env (e_text env t \<lparr>vm_temp = c_temp c, vm_data = data\<rparr>)
       (set_resp_header ''Content-Type'' (mime_string (e_text_mime env t) @ e_text_charset env t) c)"

text \<open>\<open>StringViewer\<close> prints straight to the response.\<close>

definition render_string :: "env \<Rightarrow> any \<Rightarrow> handler" where
  "render_string env data c0 =
     (let c = set_resp_header ''Content-Type'' ''text/plain; charset=utf-8'' c0
      in if data = AnyNil then Some (None, c)
         else if r_method (c_req c) \<noteq> ''HEAD''
         then let (n, e, w) = rw_write (e_z env) (e_print env data) (c_rw c)
              in Some (e, c\<lparr>c_rw := w\<rparr>)
         else Some (None, c))"

section \<open>Files\<close>

text \<open>
  \<open>NewFileViewer\<close>: the tag of an embedded file is computed once, here. The file system
  answers \<open>None\<close> when the file cannot be opened, and \<open>Some None\<close> when reading it fails.
\<close>

definition new_file_viewer ::
  "(string \<Rightarrow> string option option) \<Rightarrow> string \<Rightarrow> bool \<Rightarrow> string \<Rightarrow> string \<Rightarrow> file_viewer" where
  "new_file_viewer fs path is_embed etag cache =
     (let v = \<lparr>fv_path = path, fv_etag = etag, fv_cache = cache\<rparr>
      in if is_embed \<and> etag = []
         then (case fs path of
                 None \<Rightarrow> v
               | Some content \<Rightarrow> v\<lparr>fv_etag := compute_etag content\<rparr>)
         else v)"

definition serve_file :: "env \<Rightarrow> file_viewer \<Rightarrow> handler" where
  "serve_file env v c =
     (case e_open env (fv_path v) of
        None \<Rightarrow> do { c1 \<leftarrow> write_status 404 c; Some (None, c1) }
      | Some f \<Rightarrow>
          (case f_stat_err f of
             Some e \<Rightarrow> do { c1 \<leftarrow> write_status 500 c; Some (Some e, c1) }
           | None \<Rightarrow>
               let c1 = (if fv_cache v \<noteq> [] then set_resp_header ''Cache-Control'' (fv_cache v) c else c)
               in if f_seeker f
                  then do {
                    w \<leftarrow> e_serve_content env (c_req c1) (fv_path v) (f_mod_time f) (f_content f) (c_rw c1);
                    Some (None, c1\<lparr>c_rw := w\<rparr>)
                  }
                  else None))"

definition render_file :: "env \<Rightarrow> file_viewer \<Rightarrow> handler" where
  "render_file env v c =
     (if fv_etag v \<noteq> []
      then let c1 = set_resp_header ''ETag'' (fv_etag v) c
           in do {
                (stop, w) \<leftarrow> write_if_none_match (c_req c1) (c_rw c1);
                if stop then Some (None, c1\<lparr>c_rw := w\<rparr>) else serve_file env v (c1\<lparr>c_rw := w\<rparr>)
              }
      else serve_file env v c)"

section \<open>The interface Viewer\<close>

definition viewer_mime :: "env \<Rightarrow> viewer \<Rightarrow> mime" where
  "viewer_mime env v =
     (case v of
        JsonViewer \<Rightarrow> \<lparr>m_type = ''application'', m_sub = ''json''\<rparr>
      | XmlViewer \<Rightarrow> \<lparr>m_type = ''text'', m_sub = ''xml''\<rparr>
      | StringViewer \<Rightarrow> \<lparr>m_type = ''text'', m_sub = ''plain''\<rparr>
      | HtmlViewer t \<Rightarrow> \<lparr>m_type = ''text'', m_sub = ''html''\<rparr>
      | TextViewer t \<Rightarrow> e_text_mime env t
      | FileViewer f \<Rightarrow> \<lparr>m_type = ''*'', m_sub = ''*''\<rparr>
      | CustomViewer n m \<Rightarrow> m)"

definition render :: "env \<Rightarrow> viewer \<Rightarrow> any \<Rightarrow> handler" where
  "render env v data =
     (case v of
        JsonViewer \<Rightarrow> render_json env data
      | XmlViewer \<Rightarrow> render_xml env data
      | StringViewer \<Rightarrow> render_string env data
      | HtmlViewer t \<Rightarrow> render_html env t data
      | TextViewer t \<Rightarrow> render_text env t data
      | FileViewer f \<Rightarrow> render_file env f
      | CustomViewer n m \<Rightarrow> e_custom env n data)"

section \<open>Content negotiation\<close>

definition get_viewer :: "env \<Rightarrow> ctx \<Rightarrow> string \<Rightarrow> viewer option \<times> bool" where
  "get_viewer env c name =
     (if name = [] then (None, False)
      else (case c_named c name of
              None \<Rightarrow> (None, False)
            | Some v \<Rightarrow>
                (Some v, list_ex (\<lambda>accept. mime_match (viewer_mime env v) accept) (accept_types (c_req c)))))"

text \<open>The nested loops: the first accepted type some viewer of the route matches.\<close>

fun match_accept :: "env \<Rightarrow> viewer list \<Rightarrow> mime list \<Rightarrow> viewer option" where
  "match_accept env vs [] = None"
| "match_accept env vs (a # as) =
     (case find (\<lambda>v. mime_match (viewer_mime env v) a) vs of
        Some v \<Rightarrow> Some v
      | None \<Rightarrow> match_accept env vs as)"

text \<open>The viewer \<open>View\<close> settles on; \<open>None\<close> is \<open>ErrViewNotFound\<close>.\<close>

definition choose_viewer :: "env \<Rightarrow> ctx \<Rightarrow> string list \<Rightarrow> viewer option" where
  "choose_viewer env c options =
     (let name = (case options of n # _ \<Rightarrow> n | [] \<Rightarrow> []);
          (v, ok) = get_viewer env c name
      in if ok then v
         else (case match_accept env (c_viewers c) (accept_types (c_req c)) of
                 Some w \<Rightarrow> Some w
               | None \<Rightarrow>
                   (case v of
                      Some w \<Rightarrow> Some w
                    | None \<Rightarrow> (case c_viewers c of [] \<Rightarrow> None | w # _ \<Rightarrow> Some w))))"

definition view :: "env \<Rightarrow> any \<Rightarrow> string list \<Rightarrow> handler" where
  "view env data options c =
     (case choose_viewer env c options of
        None \<Rightarrow> Some (Some ErrViewNotFound, c)
      | Some v \<Rightarrow> render env v data c)"

section \<open>Lemmas\<close>

lemma find_SomeD: "find P xs = Some x \<Longrightarrow> x \<in> set xs \<and> P x"
  by (auto simp: find_Some_iff in_set_conv_nth)

lemma match_accept_None:
  "match_accept env vs as = None \<longleftrightarrow>
     (\<forall>a \<in> set as. \<forall>v \<in> set vs. \<not> mime_match (viewer_mime env v) a)"
  by (induction as) (auto simp: find_None_iff dest: find_SomeD split: option.splits)

lemma match_accept_Some:
  "match_accept env vs as = Some w \<Longrightarrow>
     \<exists>pre a post. as = pre @ a # post \<and> match_accept env vs pre = None \<and>
       find (\<lambda>v. mime_match (viewer_mime env v) a) vs = Some w"
proof (induction as)
  case (Cons a as)
  show ?case
  proof (cases "find (\<lambda>v. mime_match (viewer_mime env v) a) vs")
    case None
    with Cons obtain pre b post where "as = pre @ b # post" "match_accept env vs pre = None"
      "find (\<lambda>v. mime_match (viewer_mime env v) b) vs = Some w" by auto
    with None show ?thesis by (intro exI [of _ "a # pre"]) auto
  next
    case (Some v)
    with Cons.prems show ?thesis by (intro exI [of _ "[]"]) auto
  qed
qed simp

lemma buffer_write_to_std:
  assumes "rw_kind w = StdW" "w_status (rw_under w) = None" "w_room (rw_under w) = None"
    "\<not> w_head (rw_under w)" "b \<noteq> []"
  shows "buffer_write_to z b w =
    (None, [], w\<lparr>rw_under := (rw_under w)\<lparr>w_status := Some 200,
        w_sent_header := w_header (rw_under w), w_body := w_body (rw_under w) @ b\<rparr>,
      rw_sent := rw_sent w + length b\<rparr>)"
  using assms by (simp add: buffer_write_to_def rw_write_def std_write_def http_write_def body_allowed_def)

lemma set_resp_header_frame [simp]:
  "c_req (set_resp_header k v c) = c_req c" "c_temp (set_resp_header k v c) = c_temp c"
  "c_pool (set_resp_header k v c) = c_pool c"
  "rw_kind (c_rw (set_resp_header k v c)) = rw_kind (c_rw c)"
  "w_status (rw_under (c_rw (set_resp_header k v c))) = w_status (rw_under (c_rw c))"
  "w_room (rw_under (c_rw (set_resp_header k v c))) = w_room (rw_under (c_rw c))"
  "w_head (rw_under (c_rw (set_resp_header k v c))) = w_head (rw_under (c_rw c))"
  "w_body (rw_under (c_rw (set_resp_header k v c))) = w_body (rw_under (c_rw c))"
  by (simp_all add: set_resp_header_def rw_map_header_def)

lemma w_header_set_resp [simp]:
  "w_header (rw_under (c_rw (set_resp_header k v c))) = hdr_set (w_header (rw_under (c_rw c))) k v"
  by (simp add: set_resp_header_def rw_map_header_def)

lemma render_pooled_ok:
  assumes "pool_ok (c_pool c)" "r_method (c_req c) \<noteq> ''HEAD''"
    and "rw_kind (c_rw c) = StdW" "w_status (rw_under (c_rw c)) = None"
    and "w_room (rw_under (c_rw c)) = None" "\<not> w_head (rw_under (c_rw c))" "s \<noteq> []"
  shows "\<exists>c'. render_pooled env (Inr s) c = Some (None, c') \<and> pool_ok (c_pool c') \<and>
    w_status (rw_under (c_rw c')) = Some 200 \<and>
    w_body (rw_under (c_rw c')) = w_body (rw_under (c_rw c)) @ s \<and>
    w_sent_header (rw_under (c_rw c')) = w_header (rw_under (c_rw c))"
  using assms pool_get_empty [OF assms(1)] pool_ok_get [OF assms(1)] pool_ok_put
  by (simp add: render_pooled_def buffer_write_to_std split_beta)

lemma render_pooled_error:
  assumes "pool_ok (c_pool c)" "r_method (c_req c) \<noteq> ''HEAD''"
  shows "\<exists>c'. render_pooled env (Inl err) c = Some (Some err, c') \<and> pool_ok (c_pool c') \<and> c_rw c' = c_rw c"
  using assms pool_ok_get [OF assms(1)] pool_ok_put by (simp add: render_pooled_def split_beta)

lemma render_pooled_empty:
  assumes "pool_ok (c_pool c)" "r_method (c_req c) \<noteq> ''HEAD''"
  shows "\<exists>c'. render_pooled env (Inr []) c = Some (None, c') \<and> pool_ok (c_pool c')"
  using assms pool_ok_get [OF assms(1)] pool_get_empty [OF assms(1)] pool_ok_put
  by (simp add: render_pooled_def split_beta buffer_write_to_def)

section \<open>Properties\<close>



definition demo_env :: env where
  "demo_env =
     \<lparr>e_z = (\<lambda>_ _. []), e_json = (\<lambda>d. case d of AnyString s \<Rightarrow> Inr ([DQUOTE] @ s @ [DQUOTE, LF])
                                       | AnyOther n \<Rightarrow> Inl (ErrMsg ''json: unsupported type'') | _ \<Rightarrow> Inr ''null''),
      e_xml = (\<lambda>_. Inr ''<x/>''), e_print = (\<lambda>_. ''x''), e_html = (\<lambda>_ _. Inr ''<p/>''),
      e_text = (\<lambda>_ _. Inr ''t''), e_text_mime = (\<lambda>_. \<lparr>m_type = ''text'', m_sub = ''plain''\<rparr>),
      e_text_charset = (\<lambda>_. ''; charset=utf-8''), e_open = (\<lambda>_. None),
      e_serve_content = (\<lambda>_ _ _ _ w. Some w), e_custom = (\<lambda>_ _ c. Some (None, c)), e_interceptor = None\<rparr>"

definition demo_ctx :: "request \<Rightarrow> ctx" where
  "demo_ctx r =
     \<lparr>c_req = r, c_rw = new_response_writer new_http_rw, c_pattern = ''GET /'',
      c_options = \<lparr>ro_metadata = None, ro_viewers = []\<rparr>, c_viewers = [JsonViewer],
      c_named = Map.empty, c_temp = Map.empty, c_pool = new_buffer_pool 100\<rparr>"



end
