(* ===== verification/Routing.thy ===== *)
theory Routing
  imports Pattern Viewers
begin

text \<open>
  The router: \<open>app.go\<close>, \<open>group.go\<close>, \<open>routing.go\<close>, \<open>chain.go\<close>. The application's routing
  state, the registration methods, the middleware chains and the closures handed to
  \<open>http.ServeMux\<close>.

  A closure captures the pointer to its \<open>Routing\<close>; no entry of \<open>App.routes\<close> is ever replaced
  by another pointer, so the closure of a pattern reads the entry of that pattern. Which of
  the three closures of the source a pattern got is recorded with the pattern. Which
  patterns \<open>ServeMux\<close> refuses (by a panic) is the parameter \<open>ok\<close>, of the patterns registered
  so far and the new one.
\<close>

datatype chain_ref = AppChain | GroupChain nat

record routing =
  rt_options :: ropts
  rt_pattern :: string
  rt_handle :: handler
  rt_chain :: chain_ref
  rt_viewers :: "viewer list"

record group =
  g_prefix :: string
  g_middlewares :: "middleware list"

datatype mux_kind = FileClosure | PageClosure | FuncClosure | NativeHandler

record app =
  a_middlewares :: "middleware list"
  a_groups :: "group list"
  a_viewers :: "string \<Rightarrow> viewer option"
  a_routes :: "string \<Rightarrow> routing option"
  a_handler_viewers :: "viewer list"
  a_mux :: "(string \<times> mux_kind) list"
  a_compressors :: "compressor list"
  a_asset_urls :: "string \<Rightarrow> string option"

type_synonym mux_check = "string list \<Rightarrow> string \<Rightarrow> bool"

section \<open>Middleware chains\<close>

text \<open>The loop of \<open>App.Next\<close> and \<open>group.Next\<close>, from the last middleware to the first.\<close>

fun next_loop :: "nat \<Rightarrow> middleware list \<Rightarrow> handler \<Rightarrow> handler" where
  "next_loop 0 ms next = next"
| "next_loop (Suc i) ms next = next_loop i ms ((ms ! i) next)"

definition app_next :: "app \<Rightarrow> handler \<Rightarrow> handler" where
  "app_next a hf = next_loop (length (a_middlewares a)) (a_middlewares a) hf"

definition group_next :: "group \<Rightarrow> handler \<Rightarrow> handler" where
  "group_next g hf = next_loop (length (g_middlewares g)) (g_middlewares g) hf"

lemma next_loop_take: "i \<le> length ms \<Longrightarrow> next_loop i ms h = foldr (\<lambda>m. m) (take i ms) h"
  by (induction i arbitrary: h) (simp_all add: take_Suc_conv_app_nth)

text \<open>
  The interface \<open>chain\<close>: what a route needs from the application or the group it was
  registered on. A middleware that never calls its successor shields everything behind it.
\<close>

locale chain =
  fixes next_of :: "'c \<Rightarrow> handler \<Rightarrow> handler"
    and mws :: "'c \<Rightarrow> middleware list"
  assumes next_fold: "next_of c h = foldr (\<lambda>m. m) (mws c) h"
begin

lemma next_empty: "mws c = [] \<Longrightarrow> next_of c h = h"
  by (simp add: next_fold)

lemma next_split: "mws c = pre @ m # post \<Longrightarrow>
    next_of c h = foldr (\<lambda>m. m) pre (m (foldr (\<lambda>m. m) post h))"
  by (simp add: next_fold)

lemma next_shields:
  assumes "m \<in> set (mws c)" "\<And>h. m h = refuse"
  shows "next_of c h = next_of c h'"
proof -
  from assms(1) obtain pre post where "mws c = pre @ m # post" by (auto dest: split_list)
  from next_split [OF this] assms(2) show ?thesis by simp
qed

end

interpretation app_chain: chain app_next a_middlewares
  by unfold_locales (simp add: app_next_def next_loop_take)

interpretation group_chain: chain group_next g_middlewares
  by unfold_locales (simp add: group_next_def next_loop_take)

definition chain_next :: "app \<Rightarrow> chain_ref \<Rightarrow> handler \<Rightarrow> handler" where
  "chain_next a c hf =
     (case c of AppChain \<Rightarrow> app_next a hf | GroupChain i \<Rightarrow> group_next (a_groups a ! i) hf)"

definition routing_next :: "app \<Rightarrow> routing \<Rightarrow> handler" where
  "routing_next a r = chain_next a (rt_chain r) (rt_handle r)"

section \<open>Registration\<close>

definition app_use :: "middleware list \<Rightarrow> app \<Rightarrow> app" where
  "app_use ms a = a\<lparr>a_middlewares := a_middlewares a @ ms\<rparr>"

text \<open>\<open>App.Group\<close>: the new group, and the reference to it.\<close>

definition app_group :: "string \<Rightarrow> app \<Rightarrow> app \<times> nat" where
  "app_group prefix a =
     (a\<lparr>a_groups := a_groups a @ [\<lparr>g_prefix = prefix, g_middlewares = []\<rparr>]\<rparr>, length (a_groups a))"

definition group_use :: "nat \<Rightarrow> middleware list \<Rightarrow> app \<Rightarrow> app" where
  "group_use i ms a =
     a\<lparr>a_groups := (a_groups a)[i := (a_groups a ! i)
          \<lparr>g_middlewares := g_middlewares (a_groups a ! i) @ ms\<rparr>]\<rparr>"

text \<open>\<open>mux.HandleFunc\<close>: a refused pattern panics.\<close>

definition mux_handle :: "mux_check \<Rightarrow> string \<Rightarrow> mux_kind \<Rightarrow> app \<Rightarrow> app option" where
  "mux_handle ok pat k a =
     (if ok (map fst (a_mux a)) pat then Some (a\<lparr>a_mux := a_mux a @ [(pat, k)]\<rparr>) else None)"

definition handle_file :: "mux_check \<Rightarrow> env \<Rightarrow> string \<Rightarrow> file_viewer \<Rightarrow> app \<Rightarrow> app option" where
  "handle_file ok env name v a =
     do {
       (host, path, pat) \<leftarrow> split_file name;
       (case a_routes a pat of
          Some r \<Rightarrow> Some a
        | None \<Rightarrow>
            let ro = \<lparr>ro_metadata = None, ro_viewers = [FileViewer v]\<rparr>;
                r = \<lparr>rt_options = ro, rt_pattern = pat, rt_handle = render env (FileViewer v) AnyNil,
                     rt_chain = AppChain, rt_viewers = [FileViewer v]\<rparr>
            in mux_handle ok pat FileClosure
                 (a\<lparr>a_viewers := (a_viewers a)(name := Some (FileViewer v)),
                    a_routes := (a_routes a)(pat := Some r)\<rparr>))
     }"

definition handle_page :: "mux_check \<Rightarrow> env \<Rightarrow> string \<Rightarrow> string \<Rightarrow> viewer \<Rightarrow> app \<Rightarrow> app option" where
  "handle_page ok env pat view_name v a =
     (let ro = \<lparr>ro_metadata = None, ro_viewers = [v]\<rparr>
      in case a_routes a pat of
           Some r \<Rightarrow> Some (a\<lparr>a_routes := (a_routes a)(pat := Some (r\<lparr>rt_viewers := rt_viewers r @ [v]\<rparr>))\<rparr>)
         | None \<Rightarrow>
             let r = \<lparr>rt_options = ro, rt_pattern = pat, rt_handle = render env v AnyNil,
                      rt_chain = AppChain, rt_viewers = [v]\<rparr>
             in mux_handle ok pat PageClosure
                  (a\<lparr>a_viewers := (a_viewers a)(view_name := Some v),
                     a_routes := (a_routes a)(pat := Some r)\<rparr>))"

definition create_handler ::
  "mux_check \<Rightarrow> string \<Rightarrow> handler \<Rightarrow> routing_option list \<Rightarrow> chain_ref \<Rightarrow> app \<Rightarrow> app option" where
  "create_handler ok pat hf opts c a =
     (let ro = apply_options opts \<lparr>ro_metadata = None, ro_viewers = a_handler_viewers a\<rparr>
      in case a_routes a pat of
           Some r \<Rightarrow>
             Some (a\<lparr>a_routes := (a_routes a)(pat := Some (r\<lparr>rt_options := ro, rt_handle := hf,
                     rt_chain := c, rt_viewers := rt_viewers r @ ro_viewers ro\<rparr>))\<rparr>)
         | None \<Rightarrow>
             let r = \<lparr>rt_options = ro, rt_pattern = pat, rt_handle = hf, rt_chain = c,
                      rt_viewers = ro_viewers ro\<rparr>
             in mux_handle ok pat FuncClosure (a\<lparr>a_routes := (a_routes a)(pat := Some r)\<rparr>))"

datatype http_method = Get | Post | Put | Delete

fun method_name :: "http_method \<Rightarrow> string" where
  "method_name Get = ''GET''"
| "method_name Post = ''POST''"
| "method_name Put = ''PUT''"
| "method_name Delete = ''DELETE''"

text \<open>\<open>App.HandleFunc\<close>, \<open>App.Get\<close> and its siblings; the same on a group.\<close>

definition app_handle_func ::
  "mux_check \<Rightarrow> string \<Rightarrow> handler \<Rightarrow> routing_option list \<Rightarrow> app \<Rightarrow> app option" where
  "app_handle_func ok pat hf opts a = create_handler ok pat hf opts AppChain a"

definition app_method ::
  "mux_check \<Rightarrow> http_method \<Rightarrow> string \<Rightarrow> handler \<Rightarrow> routing_option list \<Rightarrow> app \<Rightarrow> app option" where
  "app_method ok m pat hf opts a = app_handle_func ok (method_name m @ '' '' @ pat) hf opts a"

definition group_handle_func ::
  "mux_check \<Rightarrow> nat \<Rightarrow> string \<Rightarrow> handler \<Rightarrow> routing_option list \<Rightarrow> app \<Rightarrow> app option" where
  "group_handle_func ok i pat hf opts a = create_handler ok pat hf opts (GroupChain i) a"

definition group_method ::
  "mux_check \<Rightarrow> nat \<Rightarrow> http_method \<Rightarrow> string \<Rightarrow> handler \<Rightarrow> routing_option list \<Rightarrow> app \<Rightarrow> app option" where
  "group_method ok i m pat hf opts a =
     group_handle_func ok i (method_name m @ '' '' @ g_prefix (a_groups a ! i) @ pat) hf opts a"

text \<open>\<open>getAssetUrl\<close>, the template function \<open>asset\<close>.\<close>

definition get_asset_url :: "app \<Rightarrow> string \<Rightarrow> string" where
  "get_asset_url a pat = (case a_asset_urls a pat of Some u \<Rightarrow> u | None \<Rightarrow> pat)"

section \<open>Serving a request\<close>

text \<open>\<open>nextLogID\<close>: the prefix and a counter in base 36.\<close>

definition digit36 :: "nat \<Rightarrow> char" where
  "digit36 n = (if n < 10 then char_of (48 + n) else char_of (87 + n))"

fun base36 :: "nat \<Rightarrow> string" where
  "base36 n = (if n < 36 then [digit36 n] else base36 (n div 36) @ [digit36 (n mod 36)])"

declare base36.simps [simp del]

definition next_log_id :: "string \<Rightarrow> nat \<Rightarrow> string \<times> nat" where
  "next_log_id prefix counter = (prefix @ base36 (Suc counter), Suc counter)"

text \<open>The context of a request: \<open>Routing: *r\<close>, the application's viewers, empty \<open>TempData\<close>.\<close>

definition new_ctx :: "app \<Rightarrow> routing \<Rightarrow> pool \<Rightarrow> request \<Rightarrow> rw \<Rightarrow> ctx" where
  "new_ctx a r pl req w =
     \<lparr>c_req = req, c_rw = w, c_pattern = rt_pattern r, c_options = rt_options r,
      c_viewers = rt_viewers r, c_named = a_viewers a, c_temp = Map.empty, c_pool = pl\<rparr>"

definition fail_500 :: "string \<Rightarrow> ctx \<Rightarrow> ctx option" where
  "fail_500 log_id c = write_status 500 (write_header ''X-Log-Id'' log_id c)"

text \<open>What a closure does with the error its chain returned.\<close>

definition finish :: "env \<Rightarrow> mux_kind \<Rightarrow> string \<Rightarrow> gerr option \<Rightarrow> ctx \<Rightarrow> ctx option" where
  "finish env k log_id err c =
     (case err of
        None \<Rightarrow> Some c
      | Some e \<Rightarrow>
          if errors_is e ErrCancelled then Some c
          else if k = FuncClosure \<and> errors_is e ErrViewNotFound
          then do {
            c1 \<leftarrow> write_status 404 c;
            let (n, we, w) = rw_write (e_z env) ''View Not Found'' (c_rw c1) in Some (c1\<lparr>c_rw := w\<rparr>)
          }
          else fail_500 log_id c)"

text \<open>
  The closure of a pattern, with the deferred \<open>Close\<close> of the writer. The result is the
  context the request ends with.
\<close>

definition serve :: "env \<Rightarrow> app \<Rightarrow> string \<Rightarrow> mux_kind \<Rightarrow> string \<Rightarrow> pool \<Rightarrow> request \<Rightarrow> http_rw \<Rightarrow> ctx option" where
  "serve env a pat k log_id pl req w =
     (case a_routes a pat of
        None \<Rightarrow> None
      | Some r \<Rightarrow>
          do {
            (err, c) \<leftarrow> routing_next a r (new_ctx a r pl req (create_writer (a_compressors a) req w));
            c' \<leftarrow> finish env k log_id err c;
            Some (c'\<lparr>c_rw := rw_close (e_z env) (c_rw c')\<rparr>)
          })"

text \<open>The closures that \<open>HandleFile\<close>, \<open>HandlePage\<close> and \<open>createHandler\<close> give to the mux.\<close>

definition file_closure :: "env \<Rightarrow> app \<Rightarrow> string \<Rightarrow> string \<Rightarrow> pool \<Rightarrow> request \<Rightarrow> http_rw \<Rightarrow> ctx option" where
  "file_closure env a pat = serve env a pat FileClosure"

definition page_closure :: "env \<Rightarrow> app \<Rightarrow> string \<Rightarrow> string \<Rightarrow> pool \<Rightarrow> request \<Rightarrow> http_rw \<Rightarrow> ctx option" where
  "page_closure env a pat = serve env a pat PageClosure"

text \<open>
  What \<open>Start\<close> logs for each route: its pattern and the types of its viewers. The patterns come in
  the order in which the map is iterated.
\<close>

definition app_start :: "env \<Rightarrow> string list \<Rightarrow> app \<Rightarrow> (string \<times> string) list" where
  "app_start env order a =
     concat (map (\<lambda>pat. case a_routes a pat of
         None \<Rightarrow> []
       | Some r \<Rightarrow> [(rt_pattern r, go_join (map (\<lambda>v. mime_string (viewer_mime env v)) (rt_viewers r)) '','')]) order)"

section \<open>Sequences of registrations\<close>

datatype reg =
    RegUse "middleware list"
  | RegGroup string
  | RegGroupUse nat "middleware list"
  | RegFile string file_viewer
  | RegPage string string viewer
  | RegFunc string handler "routing_option list"
  | RegGroupFunc nat string handler "routing_option list"
  | RegNative string

text \<open>
  A reference to a group that does not exist cannot be built in the source; the model makes
  it a failure. \<open>RegNative\<close> is a registration through the escape hatch \<open>App.Mux\<close>.
\<close>

fun register :: "mux_check \<Rightarrow> env \<Rightarrow> reg \<Rightarrow> app \<Rightarrow> app option" where
  "register ok env (RegUse ms) a = Some (app_use ms a)"
| "register ok env (RegGroup p) a = Some (fst (app_group p a))"
| "register ok env (RegGroupUse i ms) a =
     (if i < length (a_groups a) then Some (group_use i ms a) else None)"
| "register ok env (RegFile n v) a = handle_file ok env n v a"
| "register ok env (RegPage pat n v) a = handle_page ok env pat n v a"
| "register ok env (RegFunc pat hf opts) a = app_handle_func ok pat hf opts a"
| "register ok env (RegGroupFunc i pat hf opts) a =
     (if i < length (a_groups a) then group_handle_func ok i pat hf opts a else None)"
| "register ok env (RegNative pat) a = mux_handle ok pat NativeHandler a"

fun register_all :: "mux_check \<Rightarrow> env \<Rightarrow> reg list \<Rightarrow> app \<Rightarrow> app option" where
  "register_all ok env [] a = Some a"
| "register_all ok env (r # rs) a = Option.bind (register ok env r a) (register_all ok env rs)"

definition new_app :: "viewer list \<Rightarrow> compressor list \<Rightarrow> app" where
  "new_app hvs comps =
     \<lparr>a_middlewares = [], a_groups = [], a_viewers = Map.empty, a_routes = Map.empty,
      a_handler_viewers = hvs, a_mux = [], a_compressors = comps, a_asset_urls = Map.empty\<rparr>"

definition chain_ok :: "app \<Rightarrow> chain_ref \<Rightarrow> bool" where
  "chain_ok a c = (case c of AppChain \<Rightarrow> True | GroupChain i \<Rightarrow> i < length (a_groups a))"

text \<open>
  The invariant of the router: no pattern is handed to the mux twice, the patterns xun
  handed to it are exactly the keys of the routing table, each entry is filed under its own
  pattern, and its chain exists.
\<close>

definition app_ok :: "app \<Rightarrow> bool" where
  "app_ok a \<longleftrightarrow>
     distinct (map fst (a_mux a)) \<and>
     (\<forall>p. a_routes a p \<noteq> None \<longleftrightarrow> (\<exists>k. (p, k) \<in> set (a_mux a) \<and> k \<noteq> NativeHandler)) \<and>
     (\<forall>p r. a_routes a p = Some r \<longrightarrow> rt_pattern r = p \<and> chain_ok a (rt_chain r))"

lemma app_ok_new [inv_intros]: "app_ok (new_app hvs comps)"
  by (simp add: app_ok_def new_app_def)

lemma app_ok_route_update:
  assumes "app_ok a" "a_routes a p = Some r0" "rt_pattern r = p" "chain_ok a (rt_chain r)"
  shows "app_ok (a\<lparr>a_routes := (a_routes a)(p := Some r)\<rparr>)"
  using assms by (auto simp: app_ok_def chain_ok_def split: chain_ref.splits)

text \<open>What \<open>http.ServeMux\<close> documents: a pattern that is registered already is refused.\<close>

definition refuses_duplicates :: "mux_check \<Rightarrow> bool" where
  "refuses_duplicates ok \<longleftrightarrow> (\<forall>ps p. ok ps p \<longrightarrow> p \<notin> set ps)"

lemma app_ok_new_route:
  assumes "app_ok a" "a_routes a p = None" "refuses_duplicates ok" "mux_handle ok p k b = Some a'"
    and "a_groups b = a_groups a" "a_mux b = a_mux a" "a_routes b = (a_routes a)(p := Some r)"
    and "rt_pattern r = p" "chain_ok a (rt_chain r)" "k \<noteq> NativeHandler"
  shows "app_ok a'"
proof -
  from assms(4,6) have "ok (map fst (a_mux a)) p" and a': "a' = b\<lparr>a_mux := a_mux a @ [(p, k)]\<rparr>"
    by (auto simp: mux_handle_def split: if_splits)
  with assms(3) have "p \<notin> set (map fst (a_mux a))" unfolding refuses_duplicates_def by blast
  with assms(1,2,5-10) show ?thesis
    unfolding app_ok_def a' by (auto simp: chain_ok_def split: chain_ref.splits)
qed

lemma app_ok_create_handler:
  assumes "app_ok a" "chain_ok a c" "refuses_duplicates ok" "create_handler ok pat hf opts c a = Some a'"
  shows "app_ok a'"
proof (cases "a_routes a pat")
  case None
  note m = assms(4) [unfolded create_handler_def Let_def None option.case]
  show ?thesis by (rule app_ok_new_route [OF assms(1) None assms(3) m], simp, simp, simp) (use assms(2) in simp_all)
next
  case (Some r)
  with assms(1) have "rt_pattern r = pat" by (simp add: app_ok_def)
  with Some assms(4) show ?thesis
    using app_ok_route_update [OF assms(1) Some] assms(2) by (auto simp: create_handler_def Let_def)
qed

lemma app_ok_handle_page:
  assumes "app_ok a" "refuses_duplicates ok" "handle_page ok env pat n v a = Some a'"
  shows "app_ok a'"
proof (cases "a_routes a pat")
  case None
  note m = assms(3) [unfolded handle_page_def Let_def None option.case]
  show ?thesis by (rule app_ok_new_route [OF assms(1) None assms(2) m], simp, simp, simp) (simp_all add: chain_ok_def)
next
  case (Some r)
  with assms(1) have "rt_pattern r = pat" "chain_ok a (rt_chain r)" by (simp_all add: app_ok_def)
  with Some assms(3) show ?thesis
    using app_ok_route_update [OF assms(1) Some] by (auto simp: handle_page_def Let_def)
qed

lemma app_ok_handle_file:
  assumes "app_ok a" "refuses_duplicates ok" "handle_file ok env n v a = Some a'"
  shows "app_ok a'"
proof -
  from assms(3) obtain h q pat where sf: "split_file n = Some (h, q, pat)"
    by (auto simp: handle_file_def bind_eq_Some_conv)
  show ?thesis
  proof (cases "a_routes a pat")
    case None
    note m = assms(3) [unfolded handle_file_def Let_def sf bind.bind_lunit prod.case None option.case]
    show ?thesis by (rule app_ok_new_route [OF assms(1) None assms(2) m], simp, simp, simp) (simp_all add: chain_ok_def)
  next
    case (Some r)
    with assms show ?thesis by (simp add: handle_file_def sf)
  qed
qed

lemma chain_ok_grow:
  "length (a_groups a) \<le> length (a_groups b) \<Longrightarrow> chain_ok a c \<Longrightarrow> chain_ok b c"
  by (auto simp: chain_ok_def split: chain_ref.splits)

lemma app_ok_frame:
  assumes "app_ok a" "a_mux b = a_mux a" "a_routes b = a_routes a"
    "length (a_groups a) \<le> length (a_groups b)"
  shows "app_ok b"
  using assms(1) chain_ok_grow [OF assms(4)] unfolding app_ok_def assms(2,3) by blast

lemma app_ok_native:
  assumes "app_ok a" "refuses_duplicates ok" "mux_handle ok pat NativeHandler a = Some a'"
  shows "app_ok a'"
proof -
  from assms(3) have a': "a' = a\<lparr>a_mux := a_mux a @ [(pat, NativeHandler)]\<rparr>"
    and "ok (map fst (a_mux a)) pat" by (auto simp: mux_handle_def split: if_splits)
  with assms(2) have "pat \<notin> set (map fst (a_mux a))" unfolding refuses_duplicates_def by blast
  with assms(1) show ?thesis
    unfolding app_ok_def a' by (auto simp: chain_ok_def split: chain_ref.splits)
qed

lemma app_ok_register:
  assumes "refuses_duplicates ok" "app_ok a" "register ok env r a = Some a'"
  shows "app_ok a'"
proof (cases r)
  case (RegFunc pat hf opts)
  with assms(3) have h: "create_handler ok pat hf opts AppChain a = Some a'"
    by (simp add: app_handle_func_def)
  show ?thesis by (rule app_ok_create_handler [OF assms(2) _ assms(1) h]) (simp add: chain_ok_def)
next
  case (RegGroupFunc i pat hf opts)
  with assms(3) have h: "create_handler ok pat hf opts (GroupChain i) a = Some a'"
    and i: "i < length (a_groups a)"
    by (simp_all add: group_handle_func_def split: if_splits)
  show ?thesis by (rule app_ok_create_handler [OF assms(2) _ assms(1) h]) (simp add: chain_ok_def i)
next
  case (RegFile n v)
  with assms app_ok_handle_file [OF assms(2,1)] show ?thesis by simp
next
  case (RegPage pat n v)
  with assms app_ok_handle_page [OF assms(2,1)] show ?thesis by simp
next
  case (RegNative pat)
  with assms app_ok_native [OF assms(2,1)] show ?thesis by simp
qed (use assms(3) app_ok_frame [OF assms(2)] in
  \<open>auto simp: app_use_def app_group_def group_use_def split: if_splits\<close>)

lemma app_ok_register_all:
  assumes "refuses_duplicates ok"
  shows "app_ok a \<Longrightarrow> register_all ok env rs a = Some a' \<Longrightarrow> app_ok a'"
  by (induction rs arbitrary: a) (auto simp: bind_eq_Some_conv intro: app_ok_register [OF assms])

lemma finish_cases:
  assumes "rw_code (c_rw c) = 0" and "w_status (rw_under (c_rw c)) = None" and "log_id \<noteq> []"
  shows "finish env k log_id None c = Some c \<and>
    (errors_is e ErrCancelled \<longrightarrow> finish env k log_id (Some e) c = Some c) \<and>
    (\<not> errors_is e ErrCancelled \<longrightarrow>
      (\<exists>c'. finish env k log_id (Some e) c = Some c' \<and>
        (if k = FuncClosure \<and> errors_is e ErrViewNotFound
         then std_status_code (c_rw c') = 404 \<and> w_status (rw_under (c_rw c')) = Some 404
         else std_status_code (c_rw c') = 500 \<and> w_status (rw_under (c_rw c')) = Some 500 \<and>
           w_sent_header (rw_under (c_rw c')) ''X-Log-Id'' = Some [log_id])))"
proof -
  have key: "canonical_key ''X-Log-Id'' = ''X-Log-Id''" by code_simp
  have f5: "\<exists>c'. fail_500 log_id c = Some c' \<and> std_status_code (c_rw c') = 500 \<and>
      w_status (rw_under (c_rw c')) = Some 500 \<and>
      w_sent_header (rw_under (c_rw c')) ''X-Log-Id'' = Some [log_id]"
    using assms write_status_fresh [of "write_header ''X-Log-Id'' log_id c" 500]
    by (simp add: fail_500_def std_status_code_def write_header_def set_resp_header_def
        rw_map_header_def hdr_set_def key)
  have "\<exists>c1. write_status 404 c = Some c1 \<and> rw_code (c_rw c1) = 404 \<and>
      w_status (rw_under (c_rw c1)) = Some 404"
    using assms write_status_fresh [of c 404] by simp
  then obtain c1 where c1: "write_status 404 c = Some c1" "rw_code (c_rw c1) = 404"
    "w_status (rw_under (c_rw c1)) = Some 404" by blast
  have f4: "rw_code (snd (snd (rw_write (e_z env) p (c_rw c1)))) = 404 \<and>
      w_status (rw_under (snd (snd (rw_write (e_z env) p (c_rw c1))))) = Some 404" for p
    using c1 rw_op_keeps_status(1) [OF c1(3)] rwi.wr_frame(1) by simp
  have handled: "\<exists>c'. finish env k log_id (Some e) c = Some c' \<and>
        (if k = FuncClosure \<and> errors_is e ErrViewNotFound
         then std_status_code (c_rw c') = 404 \<and> w_status (rw_under (c_rw c')) = Some 404
         else std_status_code (c_rw c') = 500 \<and> w_status (rw_under (c_rw c')) = Some 500 \<and>
           w_sent_header (rw_under (c_rw c')) ''X-Log-Id'' = Some [log_id])"
    if "\<not> errors_is e ErrCancelled"
  proof (cases "k = FuncClosure \<and> errors_is e ErrViewNotFound")
    case True
    with that c1(1) f4 [of "''View Not Found''"] show ?thesis
      by (simp add: finish_def std_status_code_def split_beta)
  next
    case False
    with that have fin: "finish env k log_id (Some e) c = fail_500 log_id c"
      by (auto simp: finish_def)
    show ?thesis unfolding fin if_not_P [OF False] by (rule f5)
  qed
  show ?thesis
  proof (intro conjI impI)
    show "finish env k log_id None c = Some c" by (simp add: finish_def)
    show "finish env k log_id (Some e) c = Some c" if "errors_is e ErrCancelled"
      using that by (simp add: finish_def)
  qed (rule handled)
qed

section \<open>Properties\<close>

text \<open>
  C33: the order of middlewares. Middlewares registered later run inside those registered
  earlier, in an application and in a group alike: \<open>A\<close>, \<open>B\<close>, \<open>C\<close> around \<open>H\<close> is
  \<open>A (B (C H))\<close>.
\<close>

theorem middleware_order:
  "app_next (app_use ms a) h = app_next a (foldr (\<lambda>m. m) ms h) \<and>
   app_next (app_use [ma, mb, mc] (new_app hvs comps)) h = ma (mb (mc h)) \<and>
   group_next (g\<lparr>g_middlewares := g_middlewares g @ ms\<rparr>) h = group_next g (foldr (\<lambda>m. m) ms h)"
  by (simp add: app_chain.next_fold group_chain.next_fold app_use_def new_app_def)

text \<open>
  A middleware that refuses (it never calls its successor) shields the handler: what
  a route of a group answers does not depend on its handler at all, for every request.
\<close>

theorem refusing_middleware_shields:
  assumes "a_routes a pat = Some r" and "rt_chain r = GroupChain i"
    and "m \<in> set (g_middlewares (a_groups a ! i))" and "\<And>h. m h = refuse"
  shows "serve env (a\<lparr>a_routes := (a_routes a)(pat := Some (r\<lparr>rt_handle := hf\<rparr>))\<rparr>) pat k log_id pl req w =
    serve env a pat k log_id pl req w"
  using group_chain.next_shields [OF assms(3,4), of hf "rt_handle r"] assms(1,2)
  by (simp add: serve_def routing_next_def chain_next_def new_ctx_def)

text \<open>
  C8: the invariant of the router holds after every sequence of registrations, provided
  \<open>ServeMux\<close> refuses a pattern it has already.
\<close>

theorem registration_invariant:
  assumes "refuses_duplicates ok"
    and "register_all ok env rs (new_app hvs comps) = Some a"
  shows "app_ok a"
  using app_ok_register_all [OF assms(1) app_ok_new assms(2)] .

text \<open>
  Registering a handler for a pattern that has a route never panics and never touches
  the mux: handler, options and chain are replaced, the new viewers come after the old ones.
\<close>

theorem reregistration_overrides:
  assumes "a_routes a pat = Some r"
  shows "\<exists>a' r'. create_handler ok pat hf opts c a = Some a' \<and> a_mux a' = a_mux a \<and>
    a_routes a' pat = Some r' \<and> rt_handle r' = hf \<and> rt_chain r' = c \<and>
    rt_viewers r' = rt_viewers r @
      ro_viewers (apply_options opts \<lparr>ro_metadata = None, ro_viewers = a_handler_viewers a\<rparr>) \<and>
    (\<forall>q. q = pat \<or> a_routes a' q = a_routes a q)"
  using assms by (simp add: create_handler_def Let_def)

text \<open>
  C32: errors become statuses. On a response nothing has been sent on: no error and
  \<open>ErrCancelled\<close> leave it as it is; \<open>ErrViewNotFound\<close> from a route registered as a handler
  is 404; any other error is 500 with the log id in the header \<open>X-Log-Id\<close>.
\<close>

theorem finish_status:
  assumes "rw_code (c_rw c) = 0" and "w_status (rw_under (c_rw c)) = None" and "log_id \<noteq> []"
  shows "finish env k log_id None c = Some c \<and>
    (errors_is e ErrCancelled \<longrightarrow> finish env k log_id (Some e) c = Some c) \<and>
    (\<not> errors_is e ErrCancelled \<longrightarrow>
      (\<exists>c'. finish env k log_id (Some e) c = Some c' \<and>
        (if k = FuncClosure \<and> errors_is e ErrViewNotFound
         then std_status_code (c_rw c') = 404 \<and> w_status (rw_under (c_rw c')) = Some 404
         else std_status_code (c_rw c') = 500 \<and> w_status (rw_under (c_rw c')) = Some 500 \<and>
           w_sent_header (rw_under (c_rw c')) ''X-Log-Id'' = Some [log_id])))"
  by (rule finish_cases [OF assms])

text \<open>
  A handler registered on the pattern of a page runs inside the closure of the page:
  when it reports \<open>ErrViewNotFound\<close> the client gets 500, while the same handler on a
  pattern of its own gives 404.
\<close>

theorem page_override_view_not_found:
  assumes "a_routes a pat = None" and "a_middlewares a = []" and "a_compressors a = []"
    and "handle_page ok env pat n v a = Some a1"
    and "create_handler ok pat (\<lambda>c. Some (Some ErrViewNotFound, c)) [] AppChain a1 = Some a2"
    and "create_handler ok pat (\<lambda>c. Some (Some ErrViewNotFound, c)) [] AppChain a = Some b"
    and "w_status w = None" "log_id \<noteq> []"
  shows "(pat, PageClosure) \<in> set (a_mux a2) \<and>
    (\<exists>c. serve env a2 pat PageClosure log_id pl req w = Some c \<and> std_status_code (c_rw c) = 500) \<and>
    (pat, FuncClosure) \<in> set (a_mux b) \<and>
    (\<exists>c. serve env b pat FuncClosure log_id pl req w = Some c \<and> std_status_code (c_rw c) = 404)"
proof -
  have a1: "a_mux a1 = a_mux a @ [(pat, PageClosure)]" "a_middlewares a1 = []" "a_compressors a1 = []"
    "a_routes a1 pat \<noteq> None"
    using assms(1-4) by (auto simp: handle_page_def Let_def mux_handle_def split: if_splits)
  then obtain r1 where "a_routes a1 pat = Some r1" by auto
  with assms(5) a1 obtain r2 where a2: "a_mux a2 = a_mux a1" "a_middlewares a2 = []" "a_compressors a2 = []"
    "a_routes a2 pat = Some r2" "rt_chain r2 = AppChain"
    "rt_handle r2 = (\<lambda>c. Some (Some ErrViewNotFound, c))"
    by (auto simp: create_handler_def Let_def)
  from assms(1-3,6) obtain r3 where b: "a_mux b = a_mux a @ [(pat, FuncClosure)]" "a_middlewares b = []"
    "a_compressors b = []" "a_routes b pat = Some r3" "rt_chain r3 = AppChain"
    "rt_handle r3 = (\<lambda>c. Some (Some ErrViewNotFound, c))"
    by (auto simp: create_handler_def Let_def mux_handle_def split: if_splits)
  have sv: "\<exists>c. serve env x pat k log_id pl req w = Some c \<and>
      std_status_code (c_rw c) = (if k = FuncClosure then 404 else 500)"
    if x: "a_middlewares x = []" "a_compressors x = []" "a_routes x pat = Some r" "rt_chain r = AppChain"
      "rt_handle r = (\<lambda>c. Some (Some ErrViewNotFound, c))" for x r k
  proof -
    let ?c = "new_ctx x r pl req (create_writer [] req w)"
    have c: "rw_code (c_rw ?c) = 0" "w_status (rw_under (c_rw ?c)) = None"
      using assms(7) by (simp_all add: new_ctx_def create_writer_def new_response_writer_def)
    from finish_cases [OF c assms(8), of env k ErrViewNotFound] obtain c' where
      c': "finish env k log_id (Some ErrViewNotFound) ?c = Some c'"
      "std_status_code (c_rw c') = (if k = FuncClosure then 404 else 500)"
      by (auto split: if_splits)
    have "std_status_code (rw_close (e_z env) (c_rw c')) = std_status_code (c_rw c')"
      by (simp add: std_status_code_def rwi.cl_frame)
    with c' x show ?thesis
      by (simp add: serve_def routing_next_def chain_next_def app_chain.next_fold)
  qed
  show ?thesis using a1(1) a2 b sv by fastforce
qed

section \<open>Witnesses\<close>

text \<open>A small application: a page, and a group with a guard, on an exact-match mux.\<close>

definition demo_check :: mux_check where
  "demo_check ps p \<longleftrightarrow> p \<notin> set ps"

definition deny :: middleware where
  "deny h c = (case write_status 403 c of None \<Rightarrow> None | Some c' \<Rightarrow> Some (Some ErrCancelled, c'))"

definition hello :: handler where
  "hello c = view demo_env (AnyString ''hi'') [] c"

definition demo_regs :: "reg list" where
  "demo_regs = [RegGroup ''/admin'', RegGroupUse 0 [deny], RegPage ''GET /about'' ''about'' (HtmlViewer 0),
     RegGroupFunc 0 ''GET /admin/x'' hello [], RegFunc ''GET /about'' hello []]"

definition guarded_route :: routing where
  "guarded_route = \<lparr>rt_options = \<lparr>ro_metadata = None, ro_viewers = [JsonViewer]\<rparr>,
     rt_pattern = ''GET /admin/x'', rt_handle = hello, rt_chain = GroupChain 0, rt_viewers = [JsonViewer]\<rparr>"

definition guarded_app :: app where
  "guarded_app = (new_app [JsonViewer] [])
     \<lparr>a_groups := [\<lparr>g_prefix = ''/admin'', g_middlewares = [deny]\<rparr>],
      a_routes := [''GET /admin/x'' \<mapsto> guarded_route], a_mux := [(''GET /admin/x'', FuncClosure)]\<rparr>"

theorem refusing_middleware_shields_witness:
  "serve demo_env (guarded_app\<lparr>a_routes := (a_routes guarded_app)(''GET /admin/x'' := Some
       (guarded_route\<lparr>rt_handle := (\<lambda>c. None)\<rparr>))\<rparr>) ''GET /admin/x'' FuncClosure ''id''
       (new_buffer_pool 1) (plain_request ''GET'' ''/admin/x'') new_http_rw =
   serve demo_env guarded_app ''GET /admin/x'' FuncClosure ''id''
       (new_buffer_pool 1) (plain_request ''GET'' ''/admin/x'') new_http_rw"
proof (rule refusing_middleware_shields)
  show "a_routes guarded_app ''GET /admin/x'' = Some guarded_route" by (simp add: guarded_app_def)
  show "rt_chain guarded_route = GroupChain 0" by (simp add: guarded_route_def)
  show "deny \<in> set (g_middlewares (a_groups guarded_app ! 0))" by (simp add: guarded_app_def)
  show "deny h = (\<lambda>c. case write_status 403 c of None \<Rightarrow> None | Some c' \<Rightarrow> Some (Some ErrCancelled, c'))" for h
    by (simp add: fun_eq_iff deny_def)
qed

theorem registration_invariant_witness:
  "\<exists>a. register_all demo_check demo_env demo_regs (new_app [JsonViewer] []) = Some a \<and> app_ok a"
proof -
  have d: "refuses_duplicates demo_check" by (simp add: refuses_duplicates_def demo_check_def)
  obtain a where a: "register_all demo_check demo_env demo_regs (new_app [JsonViewer] []) = Some a"
    by (simp add: demo_regs_def app_group_def group_use_def handle_page_def mux_handle_def demo_check_def Let_def
        group_handle_func_def app_handle_func_def create_handler_def new_app_def apply_options_def)
  with registration_invariant [OF d a] show ?thesis by blast
qed

theorem reregistration_overrides_witness:
  "\<exists>a' r'. create_handler demo_check ''GET /admin/x'' (\<lambda>c. None) [] AppChain guarded_app = Some a' \<and>
     a_mux a' = a_mux guarded_app \<and> a_routes a' ''GET /admin/x'' = Some r' \<and> rt_chain r' = AppChain \<and>
     rt_viewers r' = [JsonViewer, JsonViewer]"
proof -
  have r: "a_routes guarded_app ''GET /admin/x'' = Some guarded_route" by (simp add: guarded_app_def)
  from reregistration_overrides [OF r, of demo_check "\<lambda>c. None" "[]" AppChain] show ?thesis
    by (auto simp: guarded_route_def apply_options_def guarded_app_def new_app_def)
qed

theorem finish_status_witness:
  "\<exists>c'. finish demo_env FuncClosure ''k-1'' (Some (Wrapped ''page'' ErrViewNotFound))
      (demo_ctx (plain_request ''GET'' ''/'')) = Some c' \<and> std_status_code (c_rw c') = 404"
  using finish_status [of "demo_ctx (plain_request ''GET'' ''/'')" "''k-1''" demo_env FuncClosure
      "Wrapped ''page'' ErrViewNotFound"]
  by (auto simp: demo_ctx_def new_response_writer_def new_http_rw_def)

theorem page_override_view_not_found_witness:
  "\<exists>a1 a2. handle_page demo_check demo_env ''GET /about'' ''about'' (HtmlViewer 0) (new_app [] []) = Some a1 \<and>
     create_handler demo_check ''GET /about'' (\<lambda>c. Some (Some ErrViewNotFound, c)) [] AppChain a1 = Some a2 \<and>
     (\<exists>c. serve demo_env a2 ''GET /about'' PageClosure ''k-1'' (new_buffer_pool 1)
        (plain_request ''GET'' ''/about'') new_http_rw = Some c \<and> std_status_code (c_rw c) = 500)"
proof -
  let ?h = "(\<lambda>c. Some (Some ErrViewNotFound, c)) :: handler"
  let ?a = "new_app [] []"
  obtain a1 where a1: "handle_page demo_check demo_env ''GET /about'' ''about'' (HtmlViewer 0) ?a = Some a1"
    by (simp add: handle_page_def mux_handle_def demo_check_def new_app_def Let_def)
  then have "a_routes a1 ''GET /about'' \<noteq> None"
    by (auto simp: handle_page_def mux_handle_def new_app_def Let_def split: if_splits)
  then obtain a2 where a2: "create_handler demo_check ''GET /about'' ?h [] AppChain a1 = Some a2"
    by (auto simp: create_handler_def Let_def)
  obtain b where b: "create_handler demo_check ''GET /about'' ?h [] AppChain ?a = Some b"
    by (simp add: create_handler_def mux_handle_def demo_check_def new_app_def Let_def)
  have "a_routes ?a ''GET /about'' = None" "a_middlewares ?a = []" "a_compressors ?a = []"
    by (simp_all add: new_app_def)
  from page_override_view_not_found [OF this a1 a2 b, of new_http_rw "''k-1''"] a1 a2
  show ?thesis by (auto simp: new_http_rw_def)
qed

end
