(* ===== verification/Fs.thy ===== *)
theory Fs
  imports Prelude
begin

text \<open>
  The part of \<open>io/fs\<close> that the view engines and the watcher stand on: a tree of files and
  directories as it is at one moment, \<open>fs.Stat\<close>, reading a file, and \<open>fs.WalkDir\<close>; and the
  order in which Go ranges over a map.
\<close>

section \<open>File trees\<close>

text \<open>
  A file has the result of \<open>DirEntry.Info\<close> (an error or the modification time) and the
  result of reading it (an error or its bytes); a directory has the error of \<open>ReadDir\<close>, if
  any, and its entries in the order \<open>ReadDir\<close> gives them.
\<close>

datatype fs_node =
    FileNode "gerr + int" "gerr + string"
  | DirNode "gerr option" "(string \<times> fs_node) list"

definition is_dir :: "fs_node \<Rightarrow> bool" where
  "is_dir n = (case n of DirNode e es \<Rightarrow> True | _ \<Rightarrow> False)"

lemma is_dir_simps [simp]: "is_dir (DirNode e es)" "\<not> is_dir (FileNode i c)"
  by (simp_all add: is_dir_def)

text \<open>\<open>path.Join\<close> of a directory of the tree and the name of an entry.\<close>

definition path_join :: "string \<Rightarrow> string \<Rightarrow> string" where
  "path_join d n = (if d = ''.'' then n else d @ ''/'' @ n)"

fun lookup_parts :: "fs_node \<Rightarrow> string list \<Rightarrow> fs_node option" where
  "lookup_parts n [] = Some n"
| "lookup_parts (DirNode e es) (p # ps) =
     (case map_of es p of None \<Rightarrow> None | Some n \<Rightarrow> lookup_parts n ps)"
| "lookup_parts (FileNode i c) (p # ps) = None"

definition path_parts :: "string \<Rightarrow> string list" where
  "path_parts p = (if p = ''.'' then [] else go_split p CHR ''/'')"

definition fs_lookup :: "fs_node \<Rightarrow> string \<Rightarrow> fs_node option" where
  "fs_lookup root p = lookup_parts root (path_parts p)"

text \<open>\<open>fsys.Open\<close> followed by reading everything; a directory cannot be read.\<close>

definition fs_read :: "fs_node \<Rightarrow> string \<Rightarrow> gerr + string" where
  "fs_read root p =
     (case fs_lookup root p of
        None \<Rightarrow> Inl ErrNotExist
      | Some (FileNode i c) \<Rightarrow> c
      | Some (DirNode e es) \<Rightarrow> Inl (ErrMsg ''is a directory''))"

text \<open>Names a directory can hold: not empty, no slash, not the dot.\<close>

definition name_ok :: "string \<Rightarrow> bool" where
  "name_ok n \<longleftrightarrow> n \<noteq> [] \<and> CHR ''/'' \<notin> set n \<and> n \<noteq> ''.''"

fun wf_node :: "fs_node \<Rightarrow> bool" where
  "wf_node (FileNode i c) = True"
| "wf_node (DirNode e es) =
     (distinct (map fst es) \<and> list_all (\<lambda>p. name_ok (fst p) \<and> wf_node (snd p)) es)"

section \<open>WalkDir\<close>

text \<open>
  The callback gets the path, the entry (nil when the root cannot be examined) and an
  error; it returns an error, which ends the walk, and the new state. \<open>None\<close> is a panic.
  None of the callbacks of xun returns \<open>fs.SkipDir\<close>.
\<close>

type_synonym 's visitor = "string \<Rightarrow> fs_node option \<Rightarrow> gerr option \<Rightarrow> 's \<Rightarrow> (gerr option \<times> 's) option"

fun walk_node :: "'s visitor \<Rightarrow> string \<Rightarrow> fs_node \<Rightarrow> 's \<Rightarrow> (gerr option \<times> 's) option"
and walk_entries :: "'s visitor \<Rightarrow> string \<Rightarrow> (string \<times> fs_node) list \<Rightarrow> 's \<Rightarrow> (gerr option \<times> 's) option" where
  "walk_node f path (FileNode i c) s = f path (Some (FileNode i c)) None s"
| "walk_node f path (DirNode e es) s =
     do {
       (r, s) \<leftarrow> f path (Some (DirNode e es)) None s;
       if r \<noteq> None then Some (r, s)
       else do {
         (r, s) \<leftarrow> (case e of None \<Rightarrow> Some (None, s) | Some er \<Rightarrow> f path (Some (DirNode e es)) (Some er) s);
         if r \<noteq> None then Some (r, s) else walk_entries f path es s
       }
     }"
| "walk_entries f d [] s = Some (None, s)"
| "walk_entries f d ((n, x) # es) s =
     do {
       (r, s) \<leftarrow> walk_node f (path_join d n) x s;
       if r \<noteq> None then Some (r, s) else walk_entries f d es s
     }"

definition walk_dir :: "'s visitor \<Rightarrow> fs_node \<Rightarrow> string \<Rightarrow> 's \<Rightarrow> (gerr option \<times> 's) option" where
  "walk_dir f root path s =
     (case fs_lookup root path of
        None \<Rightarrow> f path None (Some ErrNotExist) s
      | Some n \<Rightarrow> walk_node f path n s)"

text \<open>The calls a walk makes when no callback stops it, and a walk as the loop over them.\<close>

type_synonym visit = "string \<times> fs_node option \<times> gerr option"

fun node_visits :: "string \<Rightarrow> fs_node \<Rightarrow> visit list"
and entry_visits :: "string \<Rightarrow> (string \<times> fs_node) list \<Rightarrow> visit list" where
  "node_visits path (FileNode i c) = [(path, Some (FileNode i c), None)]"
| "node_visits path (DirNode e es) =
     (path, Some (DirNode e es), None) #
     (case e of None \<Rightarrow> [] | Some er \<Rightarrow> [(path, Some (DirNode e es), Some er)]) @ entry_visits path es"
| "entry_visits d [] = []"
| "entry_visits d ((n, x) # es) = node_visits (path_join d n) x @ entry_visits d es"

definition visits :: "fs_node \<Rightarrow> string \<Rightarrow> visit list" where
  "visits root path =
     (case fs_lookup root path of
        None \<Rightarrow> [(path, None, Some ErrNotExist)]
      | Some n \<Rightarrow> node_visits path n)"

fun run_visits :: "'s visitor \<Rightarrow> visit list \<Rightarrow> 's \<Rightarrow> (gerr option \<times> 's) option" where
  "run_visits f [] s = Some (None, s)"
| "run_visits f ((p, d, e) # vs) s =
     do { (r, s) \<leftarrow> f p d e s; if r \<noteq> None then Some (r, s) else run_visits f vs s }"

lemma run_visits_append:
  "run_visits f (vs @ ws) s =
     do { (r, s) \<leftarrow> run_visits f vs s; if r \<noteq> None then Some (r, s) else run_visits f ws s }"
  by (induction vs arbitrary: s) (auto simp: split_beta intro!: Option.bind_cong)

lemma run_visits_one [simp]: "run_visits f [(p, d, e)] s = f p d e s"
  by (cases "f p d e s") (auto simp: split_beta)

lemma walk_run:
  "walk_node f path n s = run_visits f (node_visits path n) s"
  "walk_entries f path es s = run_visits f (entry_visits path es) s"
proof (induction f path n s and f path es s rule: walk_node_walk_entries.induct)
  case (2 f path e es s)
  then show ?case
    by (cases e) (auto simp: split_beta intro!: Option.bind_cong)
next
  case (4 f d n x es s)
  then show ?case
    by (auto simp: run_visits_append split_beta intro!: Option.bind_cong)
qed (simp_all del: run_visits.simps(2) add: run_visits.simps(1))

lemma walk_dir_run: "walk_dir f root path s = run_visits f (visits root path) s"
  by (cases "fs_lookup root path") (simp_all add: walk_dir_def visits_def walk_run del: run_visits.simps(2))

section \<open>Which files a walk meets\<close>

definition join_parts :: "string list \<Rightarrow> string" where
  "join_parts ps = (if ps = [] then ''.'' else go_join ps ''/'')"

lemma go_join_snoc: "ps \<noteq> [] \<Longrightarrow> go_join (ps @ [p]) sep = go_join ps sep @ sep @ p"
  by (induction ps sep rule: go_join.induct) auto

lemma go_join_dot: "\<forall>p \<in> set ps. name_ok p \<Longrightarrow> ps \<noteq> [] \<Longrightarrow> go_join ps ''/'' \<noteq> ''.''"
  by (induction ps "''/''" rule: go_join.induct)
     (auto simp: name_ok_def append_eq_Cons_conv)

lemma path_join_parts:
  "\<forall>p \<in> set ps. name_ok p \<Longrightarrow> path_join (join_parts ps) n = join_parts (ps @ [n])"
  by (auto simp: path_join_def join_parts_def go_join_snoc dest: go_join_dot)

lemma path_parts_join:
  "\<forall>p \<in> set ps. name_ok p \<Longrightarrow> path_parts (join_parts ps) = ps"
  using go_split_join [of ps "CHR ''/''"] go_join_dot [of ps]
  by (auto simp: path_parts_def join_parts_def name_ok_def)

lemma lookup_parts_append:
  "lookup_parts n (ps @ qs) = Option.bind (lookup_parts n ps) (\<lambda>m. lookup_parts m qs)"
  by (induction n ps rule: lookup_parts.induct) (auto split: option.splits)

lemma map_of_wf:
  "wf_node (DirNode e es) \<Longrightarrow> map_of es p = Some x \<longleftrightarrow> (p, x) \<in> set es"
  by auto

text \<open>The entries a walk reports below a directory, as paths of names.\<close>

lemma visits_parts:
  "wf_node n \<Longrightarrow> \<forall>p \<in> set ps. name_ok p \<Longrightarrow>
   (q, Some m, None) \<in> set (node_visits (join_parts ps) n) \<longleftrightarrow>
     (\<exists>qs. (\<forall>p \<in> set qs. name_ok p) \<and> q = join_parts (ps @ qs) \<and> lookup_parts n qs = Some m)"
proof (induction n arbitrary: ps q m)
  case (FileNode i c)
  show ?case
  proof
    assume "(q, Some m, None) \<in> set (node_visits (join_parts ps) (FileNode i c))"
    then show "\<exists>qs. (\<forall>p \<in> set qs. name_ok p) \<and> q = join_parts (ps @ qs) \<and> lookup_parts (FileNode i c) qs = Some m"
      by (intro exI [of _ "[]"]) auto
  next
    assume "\<exists>qs. (\<forall>p \<in> set qs. name_ok p) \<and> q = join_parts (ps @ qs) \<and> lookup_parts (FileNode i c) qs = Some m"
    then obtain qs where "q = join_parts (ps @ qs)" "lookup_parts (FileNode i c) qs = Some m" by blast
    then show "(q, Some m, None) \<in> set (node_visits (join_parts ps) (FileNode i c))"
      by (cases qs) auto
  qed
next
  case (DirNode e es)
  have entries: "(q, Some m, None) \<in> set (entry_visits (join_parts ps) es') \<longleftrightarrow>
      (\<exists>(n, x) \<in> set es'. (q, Some m, None) \<in> set (node_visits (path_join (join_parts ps) n) x))" for es'
    by (induction es') auto
  have sub: "(q, Some m, None) \<in> set (node_visits (path_join (join_parts ps) n) x) \<longleftrightarrow>
      (\<exists>qs. (\<forall>p \<in> set qs. name_ok p) \<and> q = join_parts (ps @ n # qs) \<and> lookup_parts x qs = Some m)"
    if "(n, x) \<in> set es" for n x
  proof -
    from that DirNode.prems have x: "wf_node x" "name_ok n" by (auto simp: list_all_iff)
    have "\<forall>p \<in> set (ps @ [n]). name_ok p" using x(2) DirNode.prems(2) by auto
    from DirNode.IH [OF that _ x(1) this, of q m] DirNode.prems(2) show ?thesis
      by (simp add: path_join_parts)
  qed
  have "(q, Some m, None) \<in> set (node_visits (join_parts ps) (DirNode e es)) \<longleftrightarrow>
      (q = join_parts ps \<and> m = DirNode e es) \<or>
      (\<exists>(n, x) \<in> set es. (q, Some m, None) \<in> set (node_visits (path_join (join_parts ps) n) x))"
    by (auto simp: entries split: option.splits)
  also have "\<dots> \<longleftrightarrow> (\<exists>qs. (\<forall>p \<in> set qs. name_ok p) \<and> q = join_parts (ps @ qs) \<and>
      lookup_parts (DirNode e es) qs = Some m)" (is "?l \<longleftrightarrow> ?r")
  proof
    assume ?l
    then consider "q = join_parts ps" "m = DirNode e es"
      | n x qs where "(n, x) \<in> set es" "\<forall>p \<in> set qs. name_ok p" "q = join_parts (ps @ n # qs)"
          "lookup_parts x qs = Some m"
      using sub by blast
    then show ?r
    proof cases
      case 1
      then show ?thesis by (intro exI [of _ "[]"]) auto
    next
      case 2
      from 2(1) DirNode.prems(1) have "map_of es n = Some x" "name_ok n"
        by (auto simp: list_all_iff)
      with 2 show ?thesis by (intro exI [of _ "n # qs"]) auto
    qed
  next
    assume ?r
    then obtain qs where qs: "\<forall>p \<in> set qs. name_ok p" "q = join_parts (ps @ qs)"
      "lookup_parts (DirNode e es) qs = Some m" by blast
    show ?l
    proof (cases qs)
      case Nil
      with qs show ?thesis by simp
    next
      case (Cons n rs)
      with qs(3) obtain x where x: "map_of es n = Some x" "lookup_parts x rs = Some m"
        by (auto split: option.splits)
      from x(1) have "(n, x) \<in> set es" by (rule map_of_SomeD)
      with sub qs Cons x show ?thesis by fastforce
    qed
  qed
  finally show ?case .
qed

lemma lookup_parts_ok:
  "wf_node n \<Longrightarrow> lookup_parts n ps = Some m \<Longrightarrow> (\<forall>p \<in> set ps. name_ok p) \<and> wf_node m"
proof (induction n ps rule: lookup_parts.induct)
  case (2 e es p ps)
  then obtain x where x: "map_of es p = Some x" "lookup_parts x ps = Some m"
    by (auto split: option.splits)
  from x(1) have "(p, x) \<in> set es" by (rule map_of_SomeD)
  with 2 x show ?case by (auto simp: list_all_iff)
qed auto

lemma join_path_parts [simp]: "join_parts (path_parts p) = p"
  by (simp add: join_parts_def path_parts_def go_join_split)

lemma fs_lookup_ok:
  "wf_node root \<Longrightarrow> fs_lookup root p = Some m \<Longrightarrow> (\<forall>q \<in> set (path_parts p). name_ok q) \<and> wf_node m"
  unfolding fs_lookup_def by (rule lookup_parts_ok)

text \<open>A walk from the root meets exactly the paths that can be looked up, each as it is.\<close>

lemma visits_root:
  assumes "wf_node root"
  shows "(p, Some m, None) \<in> set (visits root ''.'') \<longleftrightarrow> fs_lookup root p = Some m"
proof -
  have "(p, Some m, None) \<in> set (node_visits (join_parts []) root) \<longleftrightarrow>
      (\<exists>qs. (\<forall>p \<in> set qs. name_ok p) \<and> p = join_parts qs \<and> lookup_parts root qs = Some m)"
    using visits_parts [OF assms, of "[]" p m] by simp
  also have "\<dots> \<longleftrightarrow> fs_lookup root p = Some m"
    using fs_lookup_ok [OF assms, of p m] path_parts_join
    by (auto simp: fs_lookup_def) (metis join_path_parts)
  finally show ?thesis
    by (simp add: visits_def fs_lookup_def path_parts_def join_parts_def)
qed

lemma visits_errors:
  "(p, d, e) \<in> set (node_visits path n) \<Longrightarrow> d \<noteq> None"
  "(p, d, e) \<in> set (entry_visits path es) \<Longrightarrow> d \<noteq> None"
  by (induction path n and path es rule: node_visits_entry_visits.induct) (auto split: option.splits)

section \<open>Ranging over a map\<close>

text \<open>
  Go ranges over a map in no specified order. An order is a function from the map to a list
  of its keys.
\<close>

definition map_order :: "(('k \<Rightarrow> 'v option) \<Rightarrow> 'k list) \<Rightarrow> bool" where
  "map_order rng \<longleftrightarrow> (\<forall>m. finite (dom m) \<longrightarrow> distinct (rng m) \<and> set (rng m) = dom m)"

lemma map_orderD:
  "map_order rng \<Longrightarrow> finite (dom m) \<Longrightarrow> distinct (rng m) \<and> set (rng m) = dom m"
  by (simp add: map_order_def)

lemma map_order_exists: "\<exists>rng. map_order (rng :: ('k \<Rightarrow> 'v option) \<Rightarrow> 'k list)"
proof -
  have "\<forall>m. \<exists>xs. finite (dom m) \<longrightarrow> distinct xs \<and> set xs = dom (m :: 'k \<Rightarrow> 'v option)"
    by (metis finite_distinct_list)
  from choice [OF this] show ?thesis unfolding map_order_def .
qed

section \<open>Walks below a directory of the root\<close>

lemma path_parts_below: "CHR ''/'' \<notin> set d \<Longrightarrow> path_parts (d @ ''/'' @ q) = d # go_split q CHR ''/''"
proof -
  assume "CHR ''/'' \<notin> set d"
  moreover have "d @ ''/'' @ q \<noteq> ''.''" by (cases d) auto
  ultimately show ?thesis by (simp add: path_parts_def go_split_append_sep)
qed

lemma visits_below:
  assumes wf: "wf_node fs" and d: "name_ok d" and p: "fs_lookup fs (d @ ''/'' @ q) = Some m"
  shows "(d @ ''/'' @ q, Some m, None) \<in> set (visits fs d)"
proof -
  from d have nd: "CHR ''/'' \<notin> set d" and dj: "join_parts [d] = d" and dp: "path_parts d = [d]"
    by (auto simp: name_ok_def join_parts_def path_parts_def go_split_no_sep)
  let ?qs = "go_split q CHR ''/''"
  have pp: "path_parts (d @ ''/'' @ q) = d # ?qs" by (rule path_parts_below [OF nd])
  have look: "lookup_parts fs ([d] @ ?qs) = Some m" using p pp by (simp add: fs_lookup_def)
  then obtain n where n: "lookup_parts fs [d] = Some n" "lookup_parts n ?qs = Some m"
    unfolding lookup_parts_append by (auto simp: bind_eq_Some_conv)
  have ok: "\<forall>r \<in> set ([d] @ ?qs). name_ok r" using lookup_parts_ok [OF wf look] by blast
  have wfn: "wf_node n" using lookup_parts_ok [OF wf n(1)] by blast
  have "d @ ''/'' @ q = join_parts ([d] @ ?qs)" using join_path_parts [of "d @ ''/'' @ q"] unfolding pp by simp
  with visits_parts [OF wfn, of "[d]" "d @ ''/'' @ q" m] ok n(2) have
    "(d @ ''/'' @ q, Some m, None) \<in> set (node_visits (join_parts [d]) n)" by auto
  then show ?thesis by (simp add: visits_def fs_lookup_def dp n(1) dj)
qed

end
