(* ===== verification/FsWatch.thy ===== *)
theory FsWatch
  imports Fs
begin

text \<open>
  The polling watcher of the package \<open>fsnotify\<close>: events with their bit sets of operations,
  the watcher's table of files, \<open>Add\<close> and \<open>check\<close>.

  The two unbuffered channels are the list of what is sent on them, in order. A check runs
  on one state of the file tree. The order in which the last loop ranges over the table is
  the parameter \<open>rng\<close>.
\<close>

section \<open>Events\<close>

type_synonym op = "32 word"

definition op_create :: op where "op_create = push_bit 0 1"
definition op_write :: op where "op_write = push_bit 1 1"
definition op_remove :: op where "op_remove = push_bit 2 1"

definition op_has :: "op \<Rightarrow> op \<Rightarrow> bool" where
  "op_has e h \<longleftrightarrow> and e h \<noteq> 0"

record event =
  ev_name :: string
  ev_op :: op

definition event_has :: "event \<Rightarrow> op \<Rightarrow> bool" where
  "event_has e h = op_has (ev_op e) h"

lemma op_has_simps [simp]:
  "op_has op_create op_create" "\<not> op_has op_create op_write" "\<not> op_has op_create op_remove"
  "op_has op_write op_write" "\<not> op_has op_write op_create" "\<not> op_has op_write op_remove"
  "op_has op_remove op_remove" "\<not> op_has op_remove op_create" "\<not> op_has op_remove op_write"
  by (simp_all add: op_has_def op_create_def op_write_def op_remove_def)

lemma op_distinct [simp]:
  "op_create \<noteq> op_write" "op_create \<noteq> op_remove" "op_write \<noteq> op_remove"
  "op_write \<noteq> op_create" "op_remove \<noteq> op_create" "op_remove \<noteq> op_write"
  by (simp_all add: op_create_def op_write_def op_remove_def)

section \<open>The watcher\<close>

record wfile =
  wf_mod :: int
  wf_times :: "64 word"

datatype wsend = SendEvent event | SendError gerr

record watcher =
  wa_files :: "string \<Rightarrow> wfile option"
  wa_times :: "64 word"
  wa_list :: "string list"
  wa_sent :: "wsend list"

definition new_watcher :: watcher where
  "new_watcher = \<lparr>wa_files = Map.empty, wa_times = 0, wa_list = [], wa_sent = []\<rparr>"

definition emit :: "string \<Rightarrow> op \<Rightarrow> watcher \<Rightarrow> watcher" where
  "emit name o' w = w\<lparr>wa_sent := wa_sent w @ [SendEvent \<lparr>ev_name = name, ev_op = o'\<rparr>]\<rparr>"

definition put_file :: "string \<Rightarrow> int \<Rightarrow> watcher \<Rightarrow> watcher" where
  "put_file path mt w =
     w\<lparr>wa_files := (wa_files w)(path := Some \<lparr>wf_mod = mt, wf_times = wa_times w\<rparr>)\<rparr>"

text \<open>The frame of both callbacks: errors end the walk, directories are skipped.\<close>

definition on_file :: "(string \<Rightarrow> int \<Rightarrow> watcher \<Rightarrow> watcher) \<Rightarrow> watcher visitor" where
  "on_file act path d err w =
     (case err of
        Some e \<Rightarrow> Some (Some e, w)
      | None \<Rightarrow>
          (case d of
             None \<Rightarrow> None
           | Some (DirNode e es) \<Rightarrow> Some (None, w)
           | Some (FileNode (Inl e) c) \<Rightarrow> Some (Some e, w)
           | Some (FileNode (Inr mt) c) \<Rightarrow> Some (None, act path mt w)))"

definition add_file :: "string \<Rightarrow> int \<Rightarrow> watcher \<Rightarrow> watcher" where
  "add_file path mt w = put_file path mt w"

definition watcher_add :: "fs_node \<Rightarrow> string \<Rightarrow> watcher \<Rightarrow> (gerr option \<times> watcher) option" where
  "watcher_add fs path w = walk_dir (on_file add_file) fs path (w\<lparr>wa_list := wa_list w @ [path]\<rparr>)"

definition check_file :: "string \<Rightarrow> int \<Rightarrow> watcher \<Rightarrow> watcher" where
  "check_file path mt w =
     (case wa_files w path of
        Some f \<Rightarrow>
          if wf_mod f = mt
          then w\<lparr>wa_files := (wa_files w)(path := Some (f\<lparr>wf_times := wa_times w\<rparr>))\<rparr>
          else emit path op_write
                 (w\<lparr>wa_files := (wa_files w)(path := Some \<lparr>wf_mod = mt, wf_times = wa_times w\<rparr>)\<rparr>)
      | None \<Rightarrow> emit path op_create (put_file path mt w))"

text \<open>The walks over the watched roots; an error of a walk is sent and the next root is walked.\<close>

fun check_roots :: "fs_node \<Rightarrow> string list \<Rightarrow> watcher \<Rightarrow> watcher option" where
  "check_roots fs [] w = Some w"
| "check_roots fs (p # ps) w =
     do {
       (r, w) \<leftarrow> walk_dir (on_file check_file) fs p w;
       check_roots fs ps (case r of None \<Rightarrow> w | Some e \<Rightarrow> w\<lparr>wa_sent := wa_sent w @ [SendError e]\<rparr>)
     }"

text \<open>The last loop: an entry this check has not touched is deleted and reported.\<close>

fun sweep :: "string list \<Rightarrow> watcher \<Rightarrow> watcher" where
  "sweep [] w = w"
| "sweep (n # ns) w =
     (case wa_files w n of
        Some t \<Rightarrow>
          if wf_times t < wa_times w
          then sweep ns (emit n op_remove (w\<lparr>wa_files := (wa_files w)(n := None)\<rparr>))
          else sweep ns w
      | None \<Rightarrow> sweep ns w)"

type_synonym file_order = "(string \<Rightarrow> wfile option) \<Rightarrow> string list"

definition check :: "file_order \<Rightarrow> fs_node \<Rightarrow> watcher \<Rightarrow> watcher option" where
  "check rng fs w =
     do {
       w1 \<leftarrow> check_roots fs (wa_list w) (w\<lparr>wa_times := wa_times w + 1\<rparr>);
       Some (sweep (rng (wa_files w1)) w1)
     }"

text \<open>\<open>Start\<close> between a start and a stop: one check per tick.\<close>

fun watch_ticks :: "file_order \<Rightarrow> fs_node list \<Rightarrow> watcher \<Rightarrow> watcher option" where
  "watch_ticks rng [] w = Some w"
| "watch_ticks rng (fs # fss) w = Option.bind (check rng fs w) (watch_ticks rng fss)"

section \<open>What a walk shows the callbacks\<close>

text \<open>The files a walk reports before it ends, and the error that ended it.\<close>

fun seen :: "visit list \<Rightarrow> (string \<times> int) list \<times> gerr option" where
  "seen [] = ([], None)"
| "seen ((p, d, Some e) # vs) = ([], Some e)"
| "seen ((p, None, None) # vs) = ([], None)"
| "seen ((p, Some (DirNode e es), None) # vs) = seen vs"
| "seen ((p, Some (FileNode (Inl e) c), None) # vs) = ([], Some e)"
| "seen ((p, Some (FileNode (Inr mt) c), None) # vs) = ((p, mt) # fst (seen vs), snd (seen vs))"

definition walk_files :: "fs_node \<Rightarrow> string \<Rightarrow> (string \<times> int) list" where
  "walk_files fs root = fst (seen (visits fs root))"

definition walk_error :: "fs_node \<Rightarrow> string \<Rightarrow> gerr option" where
  "walk_error fs root = snd (seen (visits fs root))"

lemma run_on_file:
  "\<forall>p d. (p, d, None) \<in> set vs \<longrightarrow> d \<noteq> None \<Longrightarrow>
   run_visits (on_file act) vs w = Some (snd (seen vs), fold (\<lambda>(p, mt). act p mt) (fst (seen vs)) w)"
  by (induction vs arbitrary: w rule: seen.induct) (auto simp: on_file_def)

lemma walk_on_file:
  "walk_dir (on_file act) fs root w =
     Some (walk_error fs root, fold (\<lambda>(p, mt). act p mt) (walk_files fs root) w)"
proof -
  have "\<forall>p d. (p, d, None) \<in> set (visits fs root) \<longrightarrow> d \<noteq> None"
    by (auto simp: visits_def dest: visits_errors split: option.splits)
  from run_on_file [OF this] show ?thesis
    by (simp add: walk_dir_run walk_files_def walk_error_def)
qed

lemma seen_sub: "(p, mt) \<in> set (fst (seen vs)) \<Longrightarrow> \<exists>c. (p, Some (FileNode (Inr mt) c), None) \<in> set vs"
  by (induction vs rule: seen.induct) auto

lemma seen_all:
  "snd (seen vs) = None \<Longrightarrow> \<forall>p d. (p, d, None) \<in> set vs \<longrightarrow> d \<noteq> None \<Longrightarrow>
   (p, Some (FileNode (Inr mt) c), None) \<in> set vs \<Longrightarrow> (p, mt) \<in> set (fst (seen vs))"
  by (induction vs rule: seen.induct) auto

lemma seen_no_info_error:
  "snd (seen vs) = None \<Longrightarrow> \<forall>p d. (p, d, None) \<in> set vs \<longrightarrow> d \<noteq> None \<Longrightarrow>
   (p, Some (FileNode (Inl e) c), None) \<notin> set vs"
  by (induction vs rule: seen.induct) auto

text \<open>The modification time of the file at a path, if there is one.\<close>

definition file_time :: "fs_node \<Rightarrow> string \<Rightarrow> int option" where
  "file_time fs p = (case fs_lookup fs p of Some (FileNode (Inr mt) c) \<Rightarrow> Some mt | _ \<Rightarrow> None)"

lemma file_time_Some: "file_time fs p = Some mt \<longleftrightarrow> (\<exists>c. fs_lookup fs p = Some (FileNode (Inr mt) c))"
  by (auto simp: file_time_def split: option.splits fs_node.splits sum.splits)

lemma walk_files_sound:
  "wf_node fs \<Longrightarrow> (p, mt) \<in> set (walk_files fs ''.'') \<Longrightarrow> file_time fs p = Some mt"
  by (auto simp: walk_files_def file_time_Some visits_root dest!: seen_sub)

lemma walk_files_complete:
  assumes "wf_node fs" "walk_error fs ''.'' = None"
  shows "(p, mt) \<in> set (walk_files fs ''.'') \<longleftrightarrow> file_time fs p = Some mt"
proof
  assume "file_time fs p = Some mt"
  then obtain c where "(p, Some (FileNode (Inr mt) c), None) \<in> set (visits fs ''.'')"
    by (auto simp: file_time_Some visits_root [OF assms(1)])
  moreover have "\<forall>p d. (p, d, None) \<in> set (visits fs ''.'') \<longrightarrow> d \<noteq> None"
    by (auto simp: visits_def dest: visits_errors split: option.splits)
  ultimately show "(p, mt) \<in> set (walk_files fs ''.'')"
    using assms(2) by (auto simp: walk_files_def walk_error_def intro: seen_all)
qed (rule walk_files_sound [OF assms(1)])

section \<open>What a check does\<close>

text \<open>
  The specification: the operation that leads from one modification time of a path to
  another.
\<close>

fun diff_op :: "int option \<Rightarrow> int option \<Rightarrow> op option" where
  "diff_op None None = None"
| "diff_op None (Some b) = Some op_create"
| "diff_op (Some a) None = Some op_remove"
| "diff_op (Some a) (Some b) = (if a = b then None else Some op_write)"

definition table :: "watcher \<Rightarrow> string \<Rightarrow> int option" where
  "table w p = map_option wf_mod (wa_files w p)"

definition diff_events :: "(string \<Rightarrow> int option) \<Rightarrow> (string \<Rightarrow> int option) \<Rightarrow> wsend set" where
  "diff_events old new = {SendEvent \<lparr>ev_name = q, ev_op = o'\<rparr> |q o'. diff_op (old q) (new q) = Some o'}"

definition watcher_ok :: "watcher \<Rightarrow> bool" where
  "watcher_ok w \<longleftrightarrow> finite (dom (wa_files w)) \<and>
     (\<forall>p f. wa_files w p = Some f \<longrightarrow> wf_times f \<le> wa_times w)"

definition functional :: "(string \<times> int) list \<Rightarrow> bool" where
  "functional S \<longleftrightarrow> (\<forall>p a b. (p, a) \<in> set S \<longrightarrow> (p, b) \<in> set S \<longrightarrow> a = b)"

lemma check_file_frame [simp]:
  "wa_times (check_file p mt w) = wa_times w" "wa_list (check_file p mt w) = wa_list w"
  by (simp_all add: check_file_def emit_def put_file_def split: option.splits)

lemma check_file_files:
  "wa_files (check_file p mt w) = (wa_files w)(p := Some \<lparr>wf_mod = mt, wf_times = wa_times w\<rparr>)"
  by (auto simp: check_file_def emit_def put_file_def split: option.splits)

lemma check_file_sent:
  "wa_sent (check_file p mt w) = wa_sent w @
     (case diff_op (table w p) (Some mt) of None \<Rightarrow> [] | Some o' \<Rightarrow> [SendEvent \<lparr>ev_name = p, ev_op = o'\<rparr>])"
  by (simp add: check_file_def emit_def put_file_def table_def split: option.splits)

lemma fold_check_frame [simp]:
  "wa_times (fold (\<lambda>(p, mt). check_file p mt) S w) = wa_times w"
  "wa_list (fold (\<lambda>(p, mt). check_file p mt) S w) = wa_list w"
  by (induction S arbitrary: w) auto

lemma functional_Cons: "functional (x # S) \<Longrightarrow> functional S"
  by (auto simp: functional_def)

lemma fold_check_files:
  assumes "functional S"
  shows "wa_files (fold (\<lambda>(p, mt). check_file p mt) S w) q =
    (case map_of S q of Some mt \<Rightarrow> Some \<lparr>wf_mod = mt, wf_times = wa_times w\<rparr> | None \<Rightarrow> wa_files w q)"
  using assms
proof (induction S arbitrary: w)
  case (Cons x S)
  obtain p mt where x: "x = (p, mt)" by force
  show ?case
  proof (cases "map_of S q")
    case None
    then show ?thesis using Cons.IH [OF functional_Cons [OF Cons.prems], of "check_file p mt w"]
      by (simp add: x check_file_files)
  next
    case (Some b)
    have "b = mt" if "q = p"
      using Cons.prems map_of_SomeD [OF Some] that by (auto simp: functional_def x)
    with Some show ?thesis using Cons.IH [OF functional_Cons [OF Cons.prems], of "check_file p mt w"]
      by (simp add: x)
  qed
qed simp

lemma fold_check_sent:
  assumes "functional S"
  shows "\<exists>E. wa_sent (fold (\<lambda>(p, mt). check_file p mt) S w) = wa_sent w @ E \<and> distinct E \<and>
    set E = {SendEvent \<lparr>ev_name = q, ev_op = o'\<rparr> |q o' mt. (q, mt) \<in> set S \<and> diff_op (table w q) (Some mt) = Some o'}"
  using assms
proof (induction S arbitrary: w)
  case (Cons x S)
  obtain p mt where x: "x = (p, mt)" by force
  let ?w = "check_file p mt w"
  let ?E = "case diff_op (table w p) (Some mt) of None \<Rightarrow> [] | Some o' \<Rightarrow> [SendEvent \<lparr>ev_name = p, ev_op = o'\<rparr>]"
  from Cons.IH [OF functional_Cons [OF Cons.prems], of ?w] obtain E where
    E: "wa_sent (fold (\<lambda>(p, mt). check_file p mt) S ?w) = wa_sent ?w @ E" "distinct E" and
    sE: "set E = {SendEvent \<lparr>ev_name = q, ev_op = o'\<rparr> |q o' mt. (q, mt) \<in> set S \<and> diff_op (table ?w q) (Some mt) = Some o'}"
    by blast
  have same: "b = mt" if "(p, b) \<in> set S" for b
    using Cons.prems that by (auto simp: functional_def x)
  have tab: "table ?w q = (if q = p then Some mt else table w q)" for q
    by (simp add: table_def check_file_files)
  have sE': "set E = {SendEvent \<lparr>ev_name = q, ev_op = o'\<rparr> |q o' b. q \<noteq> p \<and> (q, b) \<in> set S \<and> diff_op (table w q) (Some b) = Some o'}"
    unfolding sE tab using same by (auto split: if_splits)
  have "wa_sent (fold (\<lambda>(p, mt). check_file p mt) (x # S) w) = wa_sent w @ (?E @ E)"
    by (simp add: x E(1) check_file_sent)
  moreover have "distinct (?E @ E)"
    using E(2) by (auto simp: sE' split: option.splits)
  moreover have "set (?E @ E) = {SendEvent \<lparr>ev_name = q, ev_op = o'\<rparr> |q o' b. (q, b) \<in> set (x # S) \<and> diff_op (table w q) (Some b) = Some o'}"
    unfolding set_append sE' x using same by (auto split: option.splits)
  ultimately show ?case by blast
qed simp

definition stale :: "watcher \<Rightarrow> string \<Rightarrow> bool" where
  "stale w q \<longleftrightarrow> (case wa_files w q of None \<Rightarrow> False | Some t \<Rightarrow> wf_times t < wa_times w)"

lemma sweep_frame [simp]:
  "wa_times (sweep ns w) = wa_times w" "wa_list (sweep ns w) = wa_list w"
  by (induction ns w rule: sweep.induct) (simp_all add: emit_def split: option.splits)

lemma sweep_effect:
  "distinct ns \<Longrightarrow>
   wa_files (sweep ns w) = (\<lambda>q. if q \<in> set ns \<and> stale w q then None else wa_files w q) \<and>
   wa_sent (sweep ns w) = wa_sent w @ map (\<lambda>n. SendEvent \<lparr>ev_name = n, ev_op = op_remove\<rparr>) (filter (stale w) ns)"
proof (induction ns arbitrary: w)
  case (Cons n ns)
  show ?case
  proof (cases "stale w n")
    case True
    let ?w = "emit n op_remove (w\<lparr>wa_files := (wa_files w)(n := None)\<rparr>)"
    from True have sw: "sweep (n # ns) w = sweep ns ?w"
      by (auto simp: stale_def split: option.splits)
    have st: "stale ?w q = (q \<noteq> n \<and> stale w q)" for q
      by (cases "wa_files w q") (simp_all add: stale_def emit_def)
    have fl: "filter (stale ?w) ns = filter (stale w) ns"
      using Cons.prems by (auto simp: st intro: filter_cong)
    have w: "wa_files ?w = (wa_files w)(n := None)"
      "wa_sent ?w = wa_sent w @ [SendEvent \<lparr>ev_name = n, ev_op = op_remove\<rparr>]"
      by (simp_all add: emit_def)
    from Cons.IH [of ?w] Cons.prems show ?thesis
      using True unfolding sw fl [unfolded st] w st by (simp add: fun_eq_iff)
  next
    case False
    then have sw: "sweep (n # ns) w = sweep ns w"
      by (auto simp: stale_def split: option.splits)
    show ?thesis
      using Cons.IH [of w] Cons.prems False unfolding sw by auto
  qed
qed simp

lemma le_times_succ:
  fixes T :: "64 word"
  assumes "T \<noteq> - 1"
  shows "x \<le> T \<Longrightarrow> x < T + 1" "\<not> T + 1 < T + 1"
proof -
  have "1 + T \<noteq> 0" using assms by (metis add.commute add_eq_0_iff)
  then have "unat (T + 1) = Suc (unat T)" using unatSuc [of T] by (simp add: add.commute)
  then show "x \<le> T \<Longrightarrow> x < T + 1" by (simp add: word_le_nat_alt word_less_nat_alt)
qed simp

text \<open>
  One check of one root. The table becomes what the walk saw; the events sent are the
  differences, each once; between the walk's events and the removals comes the error of
  the walk, if it had one.
\<close>

lemma check_one_root:
  assumes fn: "functional (walk_files fs root)" and rng: "map_order rng" and ok: "watcher_ok w"
    and root: "wa_list w = [root]" and T: "wa_times w \<noteq> - 1"
  defines "new \<equiv> map_of (walk_files fs root)"
  shows "\<exists>w' E R. check rng fs w = Some w' \<and>
    wa_sent w' = wa_sent w @ E @ (case walk_error fs root of None \<Rightarrow> [] | Some e \<Rightarrow> [SendError e]) @ R \<and>
    distinct (E @ R) \<and> set (E @ R) = diff_events (table w) new \<and>
    table w' = new \<and> watcher_ok w' \<and> wa_list w' = [root] \<and> wa_times w' = wa_times w + 1"
proof -
  let ?S = "walk_files fs root" and ?e = "walk_error fs root"
  let ?T = "wa_times w + 1"
  define w0 where "w0 = w\<lparr>wa_times := ?T\<rparr>"
  define w1 where "w1 = fold (\<lambda>(p, mt). check_file p mt) ?S w0"
  define w2 where "w2 = (case ?e of None \<Rightarrow> w1 | Some e \<Rightarrow> w1\<lparr>wa_sent := wa_sent w1 @ [SendError e]\<rparr>)"
  let ?ns = "rng (wa_files w2)"
  have chk: "check rng fs w = Some (sweep ?ns w2)"
    by (cases ?e) (simp_all add: check_def root walk_on_file w2_def w1_def w0_def)
  have tab0: "table w0 = table w" by (simp add: table_def w0_def fun_eq_iff)
  have files2: "wa_files w2 q = (case new q of Some mt \<Rightarrow> Some \<lparr>wf_mod = mt, wf_times = ?T\<rparr> | None \<Rightarrow> wa_files w q)" for q
    using fold_check_files [OF fn, of w0 q]
    by (auto simp: w2_def w1_def new_def w0_def split: option.splits)
  have times2: "wa_times w2 = ?T" "wa_list w2 = [root]"
    using root by (auto simp: w2_def w1_def w0_def split: option.splits)
  obtain E where sent1: "wa_sent w1 = wa_sent w @ E" and dE: "distinct E" and
    sE: "set E = {SendEvent \<lparr>ev_name = q, ev_op = o'\<rparr> |q o' mt. (q, mt) \<in> set ?S \<and> diff_op (table w q) (Some mt) = Some o'}"
    using fold_check_sent [OF fn, of w0] by (auto simp: w1_def tab0) (auto simp: w0_def)
  have newS: "new q = Some mt \<longleftrightarrow> (q, mt) \<in> set ?S" for q mt
  proof
    assume "(q, mt) \<in> set ?S"
    then obtain b where "new q = Some b" by (cases "new q") (auto simp: new_def map_of_eq_None_iff image_iff)
    with fn \<open>(q, mt) \<in> set ?S\<close> show "new q = Some mt"
      unfolding new_def functional_def by (metis map_of_SomeD)
  qed (simp add: new_def map_of_SomeD)
  have stale2: "stale w2 q \<longleftrightarrow> new q = None \<and> wa_files w q \<noteq> None" for q
    using ok le_times_succ [OF T] by (auto simp: stale_def files2 times2 watcher_ok_def split: option.splits)
  have "dom (wa_files w2) \<subseteq> dom (wa_files w) \<union> dom new"
    by (auto simp: files2 split: option.splits)
  then have fin: "finite (dom (wa_files w2))"
    using ok finite_dom_map_of [of ?S] by (auto simp: watcher_ok_def new_def intro: finite_subset)
  from map_orderD [OF rng fin] have ns: "distinct ?ns" "set ?ns = dom (wa_files w2)" by auto
  let ?R = "map (\<lambda>n. SendEvent \<lparr>ev_name = n, ev_op = op_remove\<rparr>) (filter (stale w2) ?ns)"
  note sw = sweep_effect [OF ns(1), of w2]
  have "stale w2 q \<Longrightarrow> q \<in> set ?ns" for q
    by (auto simp: ns(2) stale_def split: option.splits)
  then have inns: "new q = None \<Longrightarrow> wa_files w q \<noteq> None \<Longrightarrow> q \<in> set ?ns" for q
    by (simp add: stale2)
  have files3: "wa_files (sweep ?ns w2) q = map_option (\<lambda>mt. \<lparr>wf_mod = mt, wf_times = ?T\<rparr>) (new q)" for q
    using sw inns [of q] by (cases "new q"; cases "wa_files w q") (simp_all add: stale2 files2)
  have sR: "set ?R = {SendEvent \<lparr>ev_name = q, ev_op = op_remove\<rparr> |q. new q = None \<and> table w q \<noteq> None}"
    by (auto simp: stale2 ns(2) table_def files2 dom_def image_iff split: option.splits)
  have "distinct ?R"
    using ns(1) by (simp add: distinct_map inj_on_def)
  moreover have "set E \<inter> set ?R = {}"
    unfolding sE sR by (auto simp: newS [symmetric])
  moreover have "set E \<union> set ?R = diff_events (table w) new"
    unfolding sE sR diff_events_def newS [symmetric]
    by (auto elim: diff_op.elims)
  moreover have "table (sweep ?ns w2) = new"
    by (simp add: table_def fun_eq_iff files3 option.map_comp comp_def option.map_ident)
  moreover have "wa_sent w2 = wa_sent w @ E @ (case ?e of None \<Rightarrow> [] | Some e \<Rightarrow> [SendError e])"
    by (simp add: w2_def sent1 split: option.splits)
  moreover have "dom (wa_files (sweep ?ns w2)) = dom new"
    by (auto simp: files3 dom_def)
  then have "watcher_ok (sweep ?ns w2)"
    by (auto simp: watcher_ok_def files3 times2 new_def finite_dom_map_of)
  ultimately show ?thesis
    using dE sw times2 chk
    by (intro exI [of _ "sweep ?ns w2"] exI [of _ E] exI [of _ ?R]) simp
qed

section \<open>Properties\<close>

text \<open>
  C2: a check of a tree that can be read reports exactly the differences: the watcher's
  table becomes the files of the tree with their modification times, and the events sent
  are Create for each new file, Write for each changed one, Remove for each missing one,
  each once and nothing else.
\<close>

theorem check_reports_differences:
  assumes "wf_node fs" and "walk_error fs ''.'' = None" and "map_order rng"
    and "watcher_ok w" and "wa_list w = [''.'']" and "wa_times w \<noteq> - 1"
  shows "\<exists>w' evs. check rng fs w = Some w' \<and> wa_sent w' = wa_sent w @ evs \<and> distinct evs \<and>
    set evs = diff_events (table w) (file_time fs) \<and> table w' = file_time fs \<and>
    watcher_ok w' \<and> wa_list w' = [''.''] \<and> wa_times w' = wa_times w + 1"
proof -
  note S = walk_files_complete [OF assms(1,2)]
  then have fn: "functional (walk_files fs ''.'')" by (auto simp: functional_def)
  have "map_of (walk_files fs ''.'') q = file_time fs q" for q
  proof (cases "file_time fs q")
    case None
    with S have "q \<notin> fst ` set (walk_files fs ''.'')" by force
    with None show ?thesis by (simp add: map_of_eq_None_iff)
  next
    case (Some mt)
    with S have "(q, mt) \<in> set (walk_files fs ''.'')" by simp
    then obtain b where "map_of (walk_files fs ''.'') q = Some b"
      by (cases "map_of (walk_files fs ''.'') q") (auto simp: map_of_eq_None_iff image_iff)
    with S Some show ?thesis by (auto dest: map_of_SomeD)
  qed
  then have "map_of (walk_files fs ''.'') = file_time fs" by (simp add: fun_eq_iff)
  with check_one_root [OF fn assms(3-6)] assms(2) show ?thesis by auto
qed

text \<open>
  A walk that fails midway makes the watcher forget. Every file of the table that the
  walk had not reached is reported as removed after the error, although it is still there,
  and is dropped from the table.
\<close>

theorem check_error_forgets:
  assumes "wf_node fs" and "walk_error fs ''.'' = Some e" and "map_order rng"
    and "watcher_ok w" and "wa_list w = [''.'']" and "wa_times w \<noteq> - 1"
    and "q \<notin> fst ` set (walk_files fs ''.'')" and "table w q = Some mt"
  shows "\<exists>w'. check rng fs w = Some w' \<and> SendError e \<in> set (wa_sent w') \<and>
    SendEvent \<lparr>ev_name = q, ev_op = op_remove\<rparr> \<in> set (wa_sent w') \<and> table w' q = None"
proof -
  have fn: "functional (walk_files fs ''.'')"
    by (auto simp: functional_def dest!: walk_files_sound [OF assms(1)])
  have new: "map_of (walk_files fs ''.'') q = None"
    using assms(7) by (simp add: map_of_eq_None_iff)
  with assms(8) have "SendEvent \<lparr>ev_name = q, ev_op = op_remove\<rparr> \<in>
      diff_events (table w) (map_of (walk_files fs ''.''))"
    unfolding diff_events_def by (intro CollectI exI [of _ q] exI [of _ op_remove]) simp
  with check_one_root [OF fn assms(3-6)] assms(2) new show ?thesis by fastforce
qed

section \<open>Witnesses\<close>

text \<open>
  A watcher that added \<open>a.txt\<close>, \<open>gone.txt\<close> and \<open>pages/x.html\<close>; the tree it checks
  next, and the same tree with a directory that cannot be read.
\<close>

definition demo_old :: fs_node where
  "demo_old = DirNode None
     [(''a.txt'', FileNode (Inr 3) (Inr ''1'')), (''gone.txt'', FileNode (Inr 1) (Inr [])),
      (''pages'', DirNode None [(''x.html'', FileNode (Inr 2) (Inr ''x''))])]"

definition demo_tree :: "gerr option \<Rightarrow> fs_node" where
  "demo_tree e = DirNode None
     [(''a.txt'', FileNode (Inr 5) (Inr ''2'')), (''locked'', DirNode e []),
      (''pages'', DirNode None [(''x.html'', FileNode (Inr 2) (Inr ''x''))])]"

definition demo_watcher :: watcher where
  "demo_watcher = the (map_option snd (watcher_add demo_old ''.'' new_watcher))"

lemma demo_watcher_eq:
  "demo_watcher = \<lparr>wa_files = [''a.txt'' \<mapsto> \<lparr>wf_mod = 3, wf_times = 0\<rparr>, ''gone.txt'' \<mapsto> \<lparr>wf_mod = 1, wf_times = 0\<rparr>,
     ''pages/x.html'' \<mapsto> \<lparr>wf_mod = 2, wf_times = 0\<rparr>], wa_times = 0, wa_list = [''.''], wa_sent = []\<rparr>"
  by (simp add: demo_watcher_def watcher_add_def new_watcher_def walk_on_file walk_error_def walk_files_def
      visits_def fs_lookup_def path_parts_def demo_old_def path_join_def add_file_def put_file_def)

lemma demo_watcher_ok: "watcher_ok demo_watcher" "wa_list demo_watcher = [''.'']" "wa_times demo_watcher \<noteq> - 1"
  by (simp_all add: demo_watcher_eq watcher_ok_def)

lemma demo_tree_ok: "wf_node (demo_tree e)"
  by (simp add: demo_tree_def name_ok_def)

lemma demo_walk:
  "walk_files (demo_tree None) ''.'' = [(''a.txt'', 5), (''pages/x.html'', 2)]"
  "walk_error (demo_tree None) ''.'' = None"
  "walk_files (demo_tree (Some e)) ''.'' = [(''a.txt'', 5)]"
  "walk_error (demo_tree (Some e)) ''.'' = Some e"
  by (simp_all add: walk_files_def walk_error_def visits_def fs_lookup_def path_parts_def demo_tree_def path_join_def)

theorem check_reports_differences_witness:
  "\<exists>rng w' evs. check rng (demo_tree None) demo_watcher = Some w' \<and> wa_sent w' = evs \<and>
     SendEvent \<lparr>ev_name = ''a.txt'', ev_op = op_write\<rparr> \<in> set evs \<and>
     SendEvent \<lparr>ev_name = ''gone.txt'', ev_op = op_remove\<rparr> \<in> set evs \<and> table w' ''gone.txt'' = None"
proof -
  obtain rng :: file_order where rng: "map_order rng" using map_order_exists by blast
  have t: "file_time (demo_tree None) ''a.txt'' = Some 5" "file_time (demo_tree None) ''gone.txt'' = None"
    by (simp_all add: file_time_def fs_lookup_def path_parts_def demo_tree_def)
  have "SendEvent \<lparr>ev_name = ''a.txt'', ev_op = op_write\<rparr> \<in> diff_events (table demo_watcher) (file_time (demo_tree None))"
    "SendEvent \<lparr>ev_name = ''gone.txt'', ev_op = op_remove\<rparr> \<in> diff_events (table demo_watcher) (file_time (demo_tree None))"
    by (simp_all add: diff_events_def t table_def demo_watcher_eq)
  moreover have "wa_sent demo_watcher = []" by (simp add: demo_watcher_eq)
  ultimately show ?thesis
    using check_reports_differences [OF demo_tree_ok demo_walk(2) rng demo_watcher_ok] t(2)
    by (metis append_Nil)
qed

theorem check_error_forgets_witness:
  "\<exists>rng w'. check rng (demo_tree (Some (ErrMsg ''denied''))) demo_watcher = Some w' \<and>
     SendEvent \<lparr>ev_name = ''pages/x.html'', ev_op = op_remove\<rparr> \<in> set (wa_sent w') \<and>
     file_time (demo_tree (Some (ErrMsg ''denied''))) ''pages/x.html'' = Some 2"
proof -
  obtain rng :: file_order where rng: "map_order rng" using map_order_exists by blast
  let ?e = "ErrMsg ''denied''"
  have "''pages/x.html'' \<notin> fst ` set (walk_files (demo_tree (Some ?e)) ''.'')" "table demo_watcher ''pages/x.html'' = Some 2"
    by (simp_all add: demo_walk table_def demo_watcher_eq)
  from check_error_forgets [OF demo_tree_ok demo_walk(4) rng demo_watcher_ok this]
  show ?thesis by (auto simp: file_time_def fs_lookup_def path_parts_def demo_tree_def)
qed

end
