(* ===== verification/HtmlTemplate.thy ===== *)
theory HtmlTemplate
  imports Fs "HOL-Library.AList"
begin

text \<open>
  HTML templates, \<open>template_html.go\<close>: loading a file with its layout and its components,
  the dependency graph between templates, reloading along it, and executing.

  Templates are shared objects: the engine's table and the dependents of other templates
  hold pointers, so the model has an explicit heap. The package \<open>html/template\<close> is a
  library: the parser is the parameter \<open>parse\<close>, which gives the named trees of a file or an
  error; trees are opaque. \<open>AddParseTree\<close> on a set that has not been executed never fails.
  A nil template is \<open>None\<close>, and using it is a panic.
\<close>

type_synonym tree = string

text \<open>A template set: the tree of its root and the trees of all its names, the root included.\<close>

record tset =
  ts_tree :: tree
  ts_set :: "(string \<times> tree) list"

type_synonym html_parser = "string \<Rightarrow> string \<Rightarrow> gerr + tset"

record html_template =
  ht_template :: "tset option"
  ht_name :: string
  ht_path :: string
  ht_layout :: string
  ht_deps :: "string list"
  ht_dependents :: "string \<Rightarrow> nat option"

record html_store =
  hs_heap :: "nat \<Rightarrow> html_template option"
  hs_next :: nat
  hs_templates :: "string \<Rightarrow> nat option"

definition new_html_template :: "string \<Rightarrow> string \<Rightarrow> html_template" where
  "new_html_template name path =
     \<lparr>ht_template = None, ht_name = name, ht_path = path, ht_layout = [], ht_deps = [],
      ht_dependents = Map.empty\<rparr>"

definition update_obj :: "nat \<Rightarrow> (html_template \<Rightarrow> html_template) \<Rightarrow> html_store \<Rightarrow> html_store" where
  "update_obj p f st = st\<lparr>hs_heap := (hs_heap st)(p := map_option f (hs_heap st p))\<rparr>"

definition alloc :: "html_template \<Rightarrow> html_store \<Rightarrow> nat \<times> html_store" where
  "alloc t st = (hs_next st, st\<lparr>hs_heap := (hs_heap st)(hs_next st := Some t), hs_next := Suc (hs_next st)\<rparr>)"

definition set_dependent :: "nat \<Rightarrow> string \<Rightarrow> nat \<Rightarrow> html_store \<Rightarrow> html_store" where
  "set_dependent p name q =
     update_obj p (\<lambda>t. t\<lparr>ht_dependents := (ht_dependents t)(name := Some q)\<rparr>)"

section \<open>The layout comment\<close>

text \<open>\<open>scan_layout\<close> is the loop over the bytes after \<open><!--layout:\<close>.\<close>

fun scan_layout :: "string \<Rightarrow> nat option" where
  "scan_layout (a # b # c # r) =
     (if a = CHR ''-'' \<and> b = CHR ''-'' \<and> c = CHR ''>'' then Some 0
      else if a = LF then None
      else map_option Suc (scan_layout (b # c # r)))"
| "scan_layout s = None"

text \<open>\<open>None\<close>: the file does not start with the comment and the layout field is not touched.\<close>

definition layout_comment :: "string \<Rightarrow> string option" where
  "layout_comment buf =
     (if length buf > 11 \<and> take 11 buf = ''<!--layout:''
      then Some (case scan_layout (drop 11 buf) of
                   None \<Rightarrow> []
                 | Some i \<Rightarrow> trim_space (take i (drop 11 buf)))
      else None)"

section \<open>Load\<close>

text \<open>The templates of the layout that the page does not define, and its root.\<close>

fun merge_layout :: "string \<Rightarrow> (string \<times> tree) list \<Rightarrow> tset \<Rightarrow> tset" where
  "merge_layout lname [] nt = nt"
| "merge_layout lname ((n, tr) # lts) nt =
     merge_layout lname lts
       (if map_of (ts_set nt) n = None \<or> n = lname
        then nt\<lparr>ts_set := AList.update n tr (ts_set nt)\<rparr> else nt)"

text \<open>
  The last loop: the root tree of each dependency the engine knows is added, and the
  template becomes its dependent. The names are distinct, so the order does not matter.
\<close>

fun link_deps :: "nat \<Rightarrow> string \<Rightarrow> string list \<Rightarrow> tset \<Rightarrow> html_store \<Rightarrow> (tset \<times> html_store) option" where
  "link_deps p name [] nt st = Some (nt, st)"
| "link_deps p name (tn # tns) nt st =
     (case hs_templates st tn of
        None \<Rightarrow> link_deps p name tns nt st
      | Some q \<Rightarrow>
          do {
            it \<leftarrow> hs_heap st q;
            ts \<leftarrow> ht_template it;
            link_deps p name tns (nt\<lparr>ts_set := AList.update tn (ts_tree ts) (ts_set nt)\<rparr>)
              (set_dependent q name p st)
          })"

definition own_deps :: "string \<Rightarrow> tset \<Rightarrow> string list" where
  "own_deps name nt = filter (\<lambda>n. \<not> equal_fold n name) (map fst (ts_set nt))"

definition set_loaded :: "nat \<Rightarrow> tset option \<Rightarrow> string list \<Rightarrow> html_store \<Rightarrow> html_store" where
  "set_loaded p ts deps = update_obj p (\<lambda>t. t\<lparr>ht_template := ts, ht_deps := deps\<rparr>)"

definition set_layout :: "nat \<Rightarrow> string \<Rightarrow> html_store \<Rightarrow> html_store" where
  "set_layout p l = update_obj p (\<lambda>t. t\<lparr>ht_layout := l\<rparr>)"

definition use_layout ::
  "nat \<Rightarrow> string \<Rightarrow> string \<Rightarrow> tset \<Rightarrow> string list \<Rightarrow> html_store \<Rightarrow> (tset \<times> string list \<times> html_store) option" where
  "use_layout p name lname nt deps st =
     (case hs_templates st lname of
        None \<Rightarrow> Some (nt, deps, st)
      | Some q \<Rightarrow>
          do {
            layout \<leftarrow> hs_heap st q;
            lts \<leftarrow> ht_template layout;
            Some (merge_layout lname (ts_set lts) nt,
                  deps @ filter (\<lambda>n. n \<notin> set deps) (ht_deps layout),
                  set_dependent q name p st)
          })"

definition layout_key :: "string \<Rightarrow> string" where
  "layout_key l = ''layouts/'' @ l"

definition load_parsed ::
  "nat \<Rightarrow> string \<Rightarrow> string \<Rightarrow> tset \<Rightarrow> html_store \<Rightarrow> (gerr option \<times> html_store) option" where
  "load_parsed p name buf nt st =
     do {
       (nt, deps, st) \<leftarrow>
         (case layout_comment buf of
            None \<Rightarrow> Some (nt, own_deps name nt, st)
          | Some l \<Rightarrow>
              if l = [] then Some (nt, own_deps name nt, set_layout p [] st)
              else do {
                (nt, deps, st) \<leftarrow> use_layout p name (layout_key l) nt (own_deps name nt) st;
                Some (nt, deps, set_layout p (layout_key l) st)
              });
       (nt, st) \<leftarrow> link_deps p name deps nt st;
       Some (None, set_loaded p (Some nt) deps st)
     }"

text \<open>\<open>HtmlTemplate.Load\<close> of the object \<open>p\<close>: the error and the store, or a panic.\<close>

definition html_load :: "html_parser \<Rightarrow> fs_node \<Rightarrow> nat \<Rightarrow> html_store \<Rightarrow> (gerr option \<times> html_store) option" where
  "html_load parse fs p st =
     do {
       t \<leftarrow> hs_heap st p;
       (case fs_read fs (ht_path t) of
          Inl e \<Rightarrow> Some (Some e, st)
        | Inr buf \<Rightarrow>
            if buf = []
            then Some (None, set_loaded p (case parse (ht_name t) [] of Inl e \<Rightarrow> None | Inr nt \<Rightarrow> Some nt) [] st)
            else (case parse (ht_name t) buf of
                    Inl e \<Rightarrow> Some (Some e, set_loaded p None [] st)
                  | Inr nt \<Rightarrow> load_parsed p (ht_name t) buf nt st))
     }"

section \<open>Reload\<close>

text \<open>
  The recursion follows the dependents and need not end, so it has fuel; the outcome tells
  a panic from running out of it. The loop ranges over the dependents as they are when it
  starts, in the order \<open>rng\<close>; an entry that is gone when its turn comes is skipped.
\<close>

datatype 'a run = Returns 'a | Panics | NoFuel

type_synonym dep_order = "(string \<Rightarrow> nat option) \<Rightarrow> string list"

function (sequential)
  html_reload :: "nat \<Rightarrow> dep_order \<Rightarrow> html_parser \<Rightarrow> fs_node \<Rightarrow> nat \<Rightarrow> html_store \<Rightarrow> (gerr option \<times> html_store) run"
and reload_deps :: "nat \<Rightarrow> dep_order \<Rightarrow> html_parser \<Rightarrow> fs_node \<Rightarrow> nat \<Rightarrow> string list \<Rightarrow> html_store \<Rightarrow> (gerr option \<times> html_store) run"
where
  "html_reload 0 rng parse fs p st = NoFuel"
| "html_reload (Suc k) rng parse fs p st =
     (case html_load parse fs p st of
        None \<Rightarrow> Panics
      | Some (Some e, st1) \<Rightarrow> Returns (Some e, st1)
      | Some (None, st1) \<Rightarrow>
          (case hs_heap st1 p of
             None \<Rightarrow> Panics
           | Some t \<Rightarrow> reload_deps k rng parse fs p (rng (ht_dependents t)) st1))"
| "reload_deps k rng parse fs p [] st = Returns (None, st)"
| "reload_deps k rng parse fs p (n # ns) st =
     (case Option.bind (hs_heap st p) (\<lambda>t. ht_dependents t n) of
        None \<Rightarrow> reload_deps k rng parse fs p ns st
      | Some q \<Rightarrow>
          (case html_reload k rng parse fs q st of
             Returns (None, st1) \<Rightarrow> reload_deps k rng parse fs p ns st1
           | Returns (Some e, st1) \<Rightarrow>
               if errors_is e ErrNotExist
               then reload_deps k rng parse fs p ns
                      (update_obj p (\<lambda>t. t\<lparr>ht_dependents := (ht_dependents t)(n := None)\<rparr>) st1)
               else Returns (Some e, st1)
           | Panics \<Rightarrow> Panics
           | NoFuel \<Rightarrow> NoFuel))"
  by pat_completeness auto
termination
  by (relation "measures [\<lambda>x. case x of Inl (k, _) \<Rightarrow> k | Inr (k, _) \<Rightarrow> k,
       \<lambda>x. case x of Inl _ \<Rightarrow> 0 | Inr (k, rng, parse, fs, p, ns, st) \<Rightarrow> Suc (length ns)]") auto

section \<open>Execute\<close>

text \<open>
  \<open>exec\<close> stands for the execution of the template of a set by name. A name that the set
  does not define is an error of \<open>ExecuteTemplate\<close>; a nil template panics.
\<close>

type_synonym 'd executor = "tset \<Rightarrow> string \<Rightarrow> 'd \<Rightarrow> gerr + string"

definition html_execute :: "'d executor \<Rightarrow> html_template \<Rightarrow> 'd \<Rightarrow> (gerr + string) option" where
  "html_execute exec t data =
     do {
       ts \<leftarrow> ht_template t;
       (if ht_layout t \<noteq> []
        then (case map_of (ts_set ts) (ht_layout t) of
                None \<Rightarrow> Some (Inl (ErrMsg (''html/template: '' @ ht_layout t @ '' is undefined'')))
              | Some tr \<Rightarrow> Some (exec ts (ht_layout t) data))
        else Some (exec ts (ht_name t) data))
     }"

section \<open>What the operations change\<close>

text \<open>An object without its dependents, and the dependents by pointer and name.\<close>

definition core :: "html_store \<Rightarrow> nat \<Rightarrow> html_template option" where
  "core st q = map_option (\<lambda>t. t\<lparr>ht_dependents := Map.empty\<rparr>) (hs_heap st q)"

definition dependent :: "html_store \<Rightarrow> nat \<Rightarrow> string \<Rightarrow> nat option" where
  "dependent st q n = Option.bind (hs_heap st q) (\<lambda>t. ht_dependents t n)"

definition loaded :: "html_store \<Rightarrow> nat \<Rightarrow> tset option" where
  "loaded st q = Option.bind (hs_heap st q) ht_template"

definition obj_tree :: "html_store \<Rightarrow> nat \<Rightarrow> tree option" where
  "obj_tree st q = map_option ts_tree (loaded st q)"

lemma update_obj_frame [simp]:
  "hs_templates (update_obj p f st) = hs_templates st" "hs_next (update_obj p f st) = hs_next st"
  "hs_heap (update_obj p f st) q = (if q = p then map_option f (hs_heap st p) else hs_heap st q)"
  by (simp_all add: update_obj_def)

lemma store_frame [simp]:
  "hs_templates (set_dependent q n p st) = hs_templates st"
  "hs_templates (set_loaded p ts deps st) = hs_templates st"
  "hs_templates (set_layout p l st) = hs_templates st"
  "hs_next (set_dependent q n p st) = hs_next st"
  "hs_next (set_loaded p ts deps st) = hs_next st"
  "hs_next (set_layout p l st) = hs_next st"
  by (simp_all add: set_dependent_def set_loaded_def set_layout_def)

lemma core_set_dependent [simp]: "core (set_dependent d n p st) = core st"
  by (rule ext) (auto simp: core_def set_dependent_def option.map_comp comp_def)

lemma dependent_set [simp]:
  "dependent (set_dependent d n p st) q m =
     (if q = d \<and> m = n \<and> hs_heap st d \<noteq> None then Some p else dependent st q m)"
  by (cases "q = d"; cases "hs_heap st d") (auto simp: dependent_def set_dependent_def)

lemma dependent_frame [simp]:
  "dependent (set_loaded p ts deps st) q m = dependent st q m"
  "dependent (set_layout p l st) q m = dependent st q m"
  by (cases "hs_heap st p"; simp add: dependent_def set_loaded_def set_layout_def)+

lemma loaded_core: "loaded st q = Option.bind (core st q) ht_template"
  by (cases "hs_heap st q") (simp_all add: loaded_def core_def)

lemma obj_tree_core: "core st = core st' \<Longrightarrow> obj_tree st = obj_tree st'"
  by (rule ext) (simp add: obj_tree_def loaded_core)

text \<open>The linking loop.\<close>

lemma link_deps_effect:
  assumes "link_deps p name tns nt st = Some (nt', st')"
  shows "hs_templates st' = hs_templates st \<and> hs_next st' = hs_next st \<and> core st' = core st \<and> ts_tree nt' = ts_tree nt \<and>
    map_of (ts_set nt') n =
      (if n \<in> set tns \<and> hs_templates st n \<noteq> None then obj_tree st (the (hs_templates st n)) else map_of (ts_set nt) n) \<and>
    dependent st' q m =
      (if m = name \<and> (\<exists>tn \<in> set tns. hs_templates st tn = Some q) then Some p else dependent st q m)"
  using assms
proof (induction p name tns nt st rule: link_deps.induct)
  case (2 p name tn tns nt st)
  show ?case
  proof (cases "hs_templates st tn")
    case None
    with 2 show ?thesis by auto
  next
    case (Some d)
    with "2.prems" obtain it ts where it: "hs_heap st d = Some it" "ht_template it = Some ts" and
      rec: "link_deps p name tns (nt\<lparr>ts_set := AList.update tn (ts_tree ts) (ts_set nt)\<rparr>) (set_dependent d name p st) = Some (nt', st')"
      by (auto simp: bind_eq_Some_conv)
    have tr: "obj_tree st d = Some (ts_tree ts)" by (simp add: obj_tree_def loaded_def it)
    have same: "obj_tree (set_dependent d name p st) = obj_tree st"
      by (rule obj_tree_core) simp
    from "2.IH"(2) [OF Some it rec] show ?thesis
      by (auto simp: Some tr same update_conv it(1) fun_eq_iff)
  qed
qed auto

lemma link_deps_total:
  assumes "\<And>tn d. tn \<in> set tns \<Longrightarrow> hs_templates st tn = Some d \<Longrightarrow> loaded st d \<noteq> None"
  shows "\<exists>r. link_deps p name tns nt st = Some r"
  using assms
proof (induction p name tns nt st rule: link_deps.induct)
  case (2 p name tn tns nt st)
  show ?case
  proof (cases "hs_templates st tn")
    case None
    have "\<exists>r. link_deps p name tns nt st = Some r"
      by (rule "2.IH"(1) [OF None]) (use "2.prems" in auto)
    with None show ?thesis by simp
  next
    case (Some d)
    with "2.prems" [of tn d] obtain ts0 where "loaded st d = Some ts0" by auto
    then obtain it ts where it: "hs_heap st d = Some it" "ht_template it = Some ts"
      by (auto simp: loaded_def bind_eq_Some_conv)
    have "\<exists>r. link_deps p name tns (nt\<lparr>ts_set := AList.update tn (ts_tree ts) (ts_set nt)\<rparr>)
        (set_dependent d name p st) = Some r"
    proof (rule "2.IH"(2) [OF Some it])
      fix tn' d' assume "tn' \<in> set tns" "hs_templates (set_dependent d name p st) tn' = Some d'"
      with "2.prems" [of tn' d'] show "loaded (set_dependent d name p st) d' \<noteq> None"
        by (simp add: loaded_core)
    qed
    with Some it show ?thesis by simp
  qed
qed auto

lemma merge_layout_set:
  "distinct (map fst lts) \<Longrightarrow>
   map_of (ts_set (merge_layout ln lts nt)) n =
     (case map_of lts n of
        None \<Rightarrow> map_of (ts_set nt) n
      | Some tr \<Rightarrow> if n = ln \<or> map_of (ts_set nt) n = None then Some tr else map_of (ts_set nt) n)"
proof (induction ln lts nt rule: merge_layout.induct)
  case (2 ln k tr lts nt)
  then have "map_of lts k = None" by (auto simp: map_of_eq_None_iff)
  with 2 show ?case by (auto simp: update_conv split: option.splits if_splits)
qed simp

lemma merge_layout_tree [simp]: "ts_tree (merge_layout ln lts nt) = ts_tree nt"
  by (induction ln lts nt rule: merge_layout.induct) auto

lemma loaded_set_layout [simp]: "loaded (set_layout p l st) q = loaded st q"
  by (cases "q = p"; cases "hs_heap st p") (simp_all add: loaded_def set_layout_def)

lemma loaded_set_dependent [simp]: "loaded (set_dependent d n p st) q = loaded st q"
  by (simp add: loaded_core)

lemma loaded_set_loaded [simp]:
  "loaded (set_loaded p ts deps st) q = (if q = p \<and> hs_heap st p \<noteq> None then ts else loaded st q)"
  by (cases "q = p"; cases "hs_heap st p") (simp_all add: loaded_def set_loaded_def)

lemma obj_tree_frame [simp]:
  "obj_tree (set_layout p l st) q = obj_tree st q" "obj_tree (set_dependent d n p st) q = obj_tree st q"
  by (simp_all add: obj_tree_def)

lemma heap_dom_frame [simp]:
  "hs_heap (set_layout p l st) q = None \<longleftrightarrow> hs_heap st q = None"
  "hs_heap (set_dependent d n p st) q = None \<longleftrightarrow> hs_heap st q = None"
  "hs_heap (set_loaded p ts deps st) q = None \<longleftrightarrow> hs_heap st q = None"
  by (auto simp: set_layout_def set_dependent_def set_loaded_def)

lemma core_dom: "core st = core st' \<Longrightarrow> hs_heap st q = None \<longleftrightarrow> hs_heap st' q = None"
  by (drule fun_cong [of _ _ q]) (cases "hs_heap st q"; cases "hs_heap st' q"; simp add: core_def)

text \<open>The set and the dependencies that the linking loop starts from.\<close>

definition page_start :: "string \<Rightarrow> string \<Rightarrow> tset \<Rightarrow> html_store \<Rightarrow> tset" where
  "page_start name buf nt st =
     (case layout_comment buf of
        None \<Rightarrow> nt
      | Some l \<Rightarrow>
          if l = [] then nt
          else (case Option.bind (hs_templates st (layout_key l)) (loaded st) of
                  None \<Rightarrow> nt
                | Some lts \<Rightarrow> merge_layout (layout_key l) (ts_set lts) nt))"

definition obj_deps :: "html_store \<Rightarrow> nat \<Rightarrow> string list" where
  "obj_deps st q = (case hs_heap st q of None \<Rightarrow> [] | Some t \<Rightarrow> ht_deps t)"

definition page_deps :: "string \<Rightarrow> string \<Rightarrow> tset \<Rightarrow> html_store \<Rightarrow> string list" where
  "page_deps name buf nt st =
     (let own = own_deps name nt
      in case layout_comment buf of
           None \<Rightarrow> own
         | Some l \<Rightarrow>
             (case hs_templates st (layout_key l) of
                None \<Rightarrow> own
              | Some q \<Rightarrow> if l = [] then own else own @ filter (\<lambda>n. n \<notin> set own) (obj_deps st q)))"

definition page_layout :: "string \<Rightarrow> string \<Rightarrow> string" where
  "page_layout buf old =
     (case layout_comment buf of None \<Rightarrow> old | Some l \<Rightarrow> if l = [] then [] else layout_key l)"

definition page_parent :: "string \<Rightarrow> html_store \<Rightarrow> nat option" where
  "page_parent buf st =
     (case layout_comment buf of
        None \<Rightarrow> None
      | Some l \<Rightarrow> if l = [] then None else hs_templates st (layout_key l))"

text \<open>The store when the linking loop starts.\<close>

definition page_linked :: "nat \<Rightarrow> string \<Rightarrow> string \<Rightarrow> html_store \<Rightarrow> html_store" where
  "page_linked p name buf st =
     (let st1 = (case page_parent buf st of None \<Rightarrow> st | Some q \<Rightarrow> set_dependent q name p st)
      in case layout_comment buf of
           None \<Rightarrow> st1
         | Some l \<Rightarrow> set_layout p (if l = [] then [] else layout_key l) st1)"

lemma page_linked_frame:
  assumes "\<And>q. page_parent buf st = Some q \<Longrightarrow> hs_heap st q \<noteq> None"
  shows "hs_templates (page_linked p name buf st) = hs_templates st" "hs_next (page_linked p name buf st) = hs_next st"
    and "dependent (page_linked p name buf st) q m =
      (if m = name \<and> page_parent buf st = Some q then Some p else dependent st q m)"
    and "loaded (page_linked p name buf st) q = loaded st q" "obj_tree (page_linked p name buf st) q = obj_tree st q"
    and "q \<noteq> p \<Longrightarrow> core (page_linked p name buf st) q = core st q"
    and "map_option (\<lambda>t. (ht_name t, ht_path t, ht_layout t)) (core (page_linked p name buf st) p) =
      map_option (\<lambda>t. (ht_name t, ht_path t, page_layout buf (ht_layout t))) (core st p)"
proof -
  define st1 where "st1 = (case page_parent buf st of None \<Rightarrow> st | Some q \<Rightarrow> set_dependent q name p st)"
  have st1: "hs_templates st1 = hs_templates st" "hs_next st1 = hs_next st" "core st1 = core st"
    "dependent st1 q m = (if m = name \<and> page_parent buf st = Some q then Some p else dependent st q m)" for q m
    using assms by (auto simp: st1_def split: option.splits)
  have l1: "loaded st1 q = loaded st q" for q by (simp add: loaded_core st1(3))
  have st2: "page_linked p name buf st =
      (case layout_comment buf of None \<Rightarrow> st1 | Some l \<Rightarrow> set_layout p (if l = [] then [] else layout_key l) st1)"
    unfolding page_linked_def st1_def Let_def ..
  show "hs_templates (page_linked p name buf st) = hs_templates st" "hs_next (page_linked p name buf st) = hs_next st"
    "loaded (page_linked p name buf st) q = loaded st q" "obj_tree (page_linked p name buf st) q = obj_tree st q"
    using st1(1,2) l1 by (auto simp: st2 obj_tree_def split: option.splits)
  show "dependent (page_linked p name buf st) q m =
      (if m = name \<and> page_parent buf st = Some q then Some p else dependent st q m)"
    using st1(4) by (auto simp: st2 split: option.splits)
  show "q \<noteq> p \<Longrightarrow> core (page_linked p name buf st) q = core st q"
    using fun_cong [OF st1(3), of q] by (auto simp: st2 core_def set_layout_def split: option.splits)
  have "map_option (\<lambda>t. (ht_name t, ht_path t, ht_layout t)) (core (page_linked p name buf st) p) =
      map_option (\<lambda>t. (ht_name t, ht_path t, page_layout buf (ht_layout t))) (core st1 p)"
    by (cases "hs_heap st1 p") (auto simp: core_def st2 set_layout_def page_layout_def split: option.splits)
  then show "map_option (\<lambda>t. (ht_name t, ht_path t, ht_layout t)) (core (page_linked p name buf st) p) =
      map_option (\<lambda>t. (ht_name t, ht_path t, page_layout buf (ht_layout t))) (core st p)"
    by (simp add: st1(3))
qed

text \<open>A load of a file that parses is the linking loop on that store, set and dependencies.\<close>

lemma html_load_links:
  assumes t: "hs_heap st p = Some t" and rd: "fs_read fs (ht_path t) = Inr buf" and ne: "buf \<noteq> []"
    and nt: "parse (ht_name t) buf = Inr nt"
    and par: "\<And>q. page_parent buf st = Some q \<Longrightarrow> loaded st q \<noteq> None"
  defines "deps \<equiv> page_deps (ht_name t) buf nt st"
  shows "html_load parse fs p st =
    map_option (\<lambda>(nt', st3). (None, set_loaded p (Some nt') deps st3))
      (link_deps p (ht_name t) deps (page_start (ht_name t) buf nt st) (page_linked p (ht_name t) buf st))"
proof -
  let ?name = "ht_name t" and ?start = "page_start (ht_name t) buf nt st" and ?st2 = "page_linked p (ht_name t) buf st"
  have "(case layout_comment buf of
            None \<Rightarrow> Some (nt, own_deps ?name nt, st)
          | Some l \<Rightarrow>
              if l = [] then Some (nt, own_deps ?name nt, set_layout p [] st)
              else do {
                (nt, deps, st) \<leftarrow> use_layout p ?name (layout_key l) nt (own_deps ?name nt) st;
                Some (nt, deps, set_layout p (layout_key l) st)
              }) = Some (?start, deps, ?st2)"
  proof (cases "layout_comment buf")
    case None
    then show ?thesis
      by (simp add: page_start_def deps_def page_deps_def page_linked_def page_parent_def Let_def)
  next
    case (Some l)
    show ?thesis
    proof (cases "l = []")
      case True
      with Some show ?thesis
        by (simp add: page_start_def deps_def page_deps_def page_linked_def page_parent_def Let_def split: option.splits)
    next
      case False
      show ?thesis
      proof (cases "hs_templates st (layout_key l)")
        case None
        with Some False show ?thesis
          by (simp add: page_start_def deps_def page_deps_def page_linked_def page_parent_def Let_def use_layout_def)
      next
        case (Some q)
        with False \<open>layout_comment buf = Some l\<close> have "page_parent buf st = Some q" by (simp add: page_parent_def)
        from par [OF this] obtain lay lts where "hs_heap st q = Some lay" "ht_template lay = Some lts"
          by (auto simp: loaded_def bind_eq_Some_conv)
        with Some \<open>layout_comment buf = Some l\<close> False show ?thesis
          by (simp add: page_start_def deps_def page_deps_def page_linked_def page_parent_def Let_def use_layout_def
              loaded_def obj_deps_def)
      qed
    qed
  qed
  then show ?thesis
    using ne by (cases "link_deps p ?name deps ?start ?st2") (simp_all add: html_load_def t rd nt load_parsed_def split_beta)
qed

text \<open>
  A load of a file that parses, with everything it may refer to loaded: the outcome in
  terms of the store before.
\<close>

lemma html_load_parsed:
  assumes t: "hs_heap st p = Some t" and rd: "fs_read fs (ht_path t) = Inr buf" and ne: "buf \<noteq> []"
    and nt: "parse (ht_name t) buf = Inr nt"
    and par: "\<And>q. page_parent buf st = Some q \<Longrightarrow> loaded st q \<noteq> None"
  defines "deps \<equiv> page_deps (ht_name t) buf nt st"
  shows "(html_load parse fs p st = None \<and> (\<exists>tn \<in> set deps. \<exists>d. hs_templates st tn = Some d \<and> loaded st d = None)) \<or>
    (\<exists>st' t' ts. html_load parse fs p st = Some (None, st') \<and> hs_templates st' = hs_templates st \<and>
    hs_next st' = hs_next st \<and>
    hs_heap st' p = Some t' \<and> ht_template t' = Some ts \<and> ht_deps t' = deps \<and> ht_name t' = ht_name t \<and>
    ht_path t' = ht_path t \<and> ht_layout t' = page_layout buf (ht_layout t) \<and> ts_tree ts = ts_tree nt \<and>
    (\<forall>n. map_of (ts_set ts) n =
       (if n \<in> set deps \<and> hs_templates st n \<noteq> None then obj_tree st (the (hs_templates st n))
        else map_of (ts_set (page_start (ht_name t) buf nt st)) n)) \<and>
    (\<forall>q m. dependent st' q m =
       (if m = ht_name t \<and> ((\<exists>tn \<in> set deps. hs_templates st tn = Some q) \<or> page_parent buf st = Some q)
        then Some p else dependent st q m)) \<and>
    (\<forall>q. q \<noteq> p \<longrightarrow> core st' q = core st q))"
proof -
  let ?name = "ht_name t" and ?start = "page_start (ht_name t) buf nt st" and ?st2 = "page_linked p (ht_name t) buf st"
  have alive: "hs_heap st q \<noteq> None" if "page_parent buf st = Some q" for q
    using par [OF that] by (cases "hs_heap st q") (auto simp: loaded_def)
  note st2 = page_linked_frame [OF alive, where p = p and name = ?name]
  note load = html_load_links [where parse = parse, OF t rd ne nt par, folded deps_def]
  show ?thesis
  proof (cases "link_deps p ?name deps ?start ?st2")
    case None
    have "\<exists>tn \<in> set deps. \<exists>d. hs_templates st tn = Some d \<and> loaded st d = None"
      using link_deps_total [of deps ?st2 p ?name ?start] None st2(1,4) by force
    with None load show ?thesis by simp
  next
    case (Some r)
    then obtain nt' st3 where lk: "link_deps p ?name deps ?start ?st2 = Some (nt', st3)" by (cases r) auto
    note eff = link_deps_effect [OF lk]
    have c: "map_option (\<lambda>t. (ht_name t, ht_path t, ht_layout t)) (core st3 p) = Some (?name, ht_path t, page_layout buf (ht_layout t))"
      using eff st2(7) t by (simp add: core_def)
    then obtain t3 where t3: "hs_heap st3 p = Some t3" by (cases "hs_heap st3 p") (simp_all add: core_def)
    with c have t3c: "ht_name t3 = ?name" "ht_path t3 = ht_path t" "ht_layout t3 = page_layout buf (ht_layout t)"
      by (simp_all add: core_def)
    have other: "core (set_loaded p (Some nt') deps st3) q = core st q" if "q \<noteq> p" for q
    proof -
      have "core (set_loaded p (Some nt') deps st3) q = core st3 q" using that by (simp add: core_def set_loaded_def)
      then show ?thesis using eff st2(6) [OF _ that] by simp
    qed
    have tree: "ts_tree ?start = ts_tree nt" by (auto simp: page_start_def split: option.splits)
    have hp: "hs_heap (set_loaded p (Some nt') deps st3) p = Some (t3\<lparr>ht_template := Some nt', ht_deps := deps\<rparr>)"
      by (simp add: set_loaded_def t3)
    show ?thesis
      using eff st2(1-5) hp t3c load [unfolded lk, simplified] other tree
      by (intro disjI2 exI [of _ "set_loaded p (Some nt') deps st3"] exI [of _ "t3\<lparr>ht_template := Some nt', ht_deps := deps\<rparr>"] exI [of _ nt'])
        auto
  qed
qed

lemma html_load_success:
  assumes load: "html_load parse fs p st = Some (r, st')" and t: "hs_heap st p = Some t"
    and rd: "fs_read fs (ht_path t) = Inr buf" and ne: "buf \<noteq> []" and nt: "parse (ht_name t) buf = Inr nt"
  shows "page_parent buf st = Some q \<Longrightarrow> loaded st q \<noteq> None"
proof -
  assume q: "page_parent buf st = Some q"
  then obtain l where l: "layout_comment buf = Some l" "l \<noteq> []" "hs_templates st (layout_key l) = Some q"
    by (auto simp: page_parent_def split: option.splits if_splits)
  show ?thesis
  proof
    assume "loaded st q = None"
    with l have "html_load parse fs p st = None"
      using ne by (cases "hs_heap st q")
        (simp_all add: html_load_def t rd nt load_parsed_def use_layout_def loaded_def)
    with load show False by simp
  qed
qed

section \<open>Termination of Reload\<close>

text \<open>
  A rank that grows along the dependents of every template, and along what the files as
  they are now can make a template depend on.
\<close>

definition ranked :: "(nat \<Rightarrow> nat) \<Rightarrow> nat \<Rightarrow> html_parser \<Rightarrow> fs_node \<Rightarrow> html_store \<Rightarrow> bool" where
  "ranked r N parse fs st \<longleftrightarrow>
     (\<forall>q. hs_heap st q \<noteq> None \<longrightarrow> r q \<le> N) \<and>
     (\<forall>q n d. dependent st q n = Some d \<longrightarrow> r q < r d \<and> hs_heap st d \<noteq> None) \<and>
     (\<forall>q. \<forall>tn \<in> set (obj_deps st q). \<forall>d. hs_templates st tn = Some d \<longrightarrow> r d < r q) \<and>
     (\<forall>p t buf nt. hs_heap st p = Some t \<longrightarrow> fs_read fs (ht_path t) = Inr buf \<longrightarrow> parse (ht_name t) buf = Inr nt \<longrightarrow>
        (\<forall>tn \<in> set (own_deps (ht_name t) nt). \<forall>d. hs_templates st tn = Some d \<longrightarrow> r d < r p) \<and>
        (\<forall>q. page_parent buf st = Some q \<longrightarrow> r q < r p))"

lemma obj_deps_core: "obj_deps st q = (case core st q of None \<Rightarrow> [] | Some t \<Rightarrow> ht_deps t)"
  by (simp add: obj_deps_def core_def split: option.splits)

lemma name_path_core:
  "hs_heap st q = Some t \<Longrightarrow> core st' q = core st q \<Longrightarrow>
   \<exists>t'. hs_heap st' q = Some t' \<and> ht_name t' = ht_name t \<and> ht_path t' = ht_path t"
proof -
  assume t: "hs_heap st q = Some t" and c: "core st' q = core st q"
  then obtain t' where t': "hs_heap st' q = Some t'" "t'\<lparr>ht_dependents := Map.empty\<rparr> = t\<lparr>ht_dependents := Map.empty\<rparr>"
    by (cases "hs_heap st' q") (auto simp: core_def)
  from arg_cong [OF t'(2), of ht_name] arg_cong [OF t'(2), of ht_path] t'(1) show ?thesis by simp
qed

lemma page_deps_cases:
  "tn \<in> set (page_deps name buf nt st) \<Longrightarrow>
     tn \<in> set (own_deps name nt) \<or> (\<exists>q. page_parent buf st = Some q \<and> tn \<in> set (obj_deps st q))"
  by (auto simp: page_deps_def page_parent_def Let_def split: option.splits if_splits)

text \<open>What a store keeps of an earlier one: the table, and the names and paths of its objects.\<close>

definition same_shape :: "html_store \<Rightarrow> html_store \<Rightarrow> bool" where
  "same_shape st st' \<longleftrightarrow> hs_templates st' = hs_templates st \<and>
     (\<forall>q. map_option (\<lambda>t. (ht_name t, ht_path t)) (hs_heap st' q) = map_option (\<lambda>t. (ht_name t, ht_path t)) (hs_heap st q))"

lemma same_shape_refl [simp]: "same_shape st st"
  by (simp add: same_shape_def)

lemma same_shape_trans: "same_shape a b \<Longrightarrow> same_shape b c \<Longrightarrow> same_shape a c"
  by (simp add: same_shape_def)

lemma same_shape_at:
  "same_shape st st' \<Longrightarrow>
     map_option (\<lambda>t. (ht_name t, ht_path t)) (hs_heap st' q) = map_option (\<lambda>t. (ht_name t, ht_path t)) (hs_heap st q)"
  by (simp add: same_shape_def)

lemma same_shape_dom: "same_shape st st' \<Longrightarrow> hs_heap st' q = None \<longleftrightarrow> hs_heap st q = None"
  by (drule same_shape_at [of _ _ q]) (cases "hs_heap st q"; cases "hs_heap st' q"; simp)

lemma page_parent_shape: "same_shape st st' \<Longrightarrow> page_parent buf st' = page_parent buf st"
  by (cases "layout_comment buf") (simp_all add: same_shape_def page_parent_def)

lemma ranked_shape:
  assumes "ranked r N parse fs st" "same_shape st st'"
    and "\<And>q n d. dependent st' q n = Some d \<Longrightarrow> r q < r d \<and> hs_heap st' d \<noteq> None"
    and "\<And>q tn d. tn \<in> set (obj_deps st' q) \<Longrightarrow> hs_templates st tn = Some d \<Longrightarrow> r d < r q"
  shows "ranked r N parse fs st'"
proof -
  have obj: "\<exists>t. hs_heap st q = Some t \<and> ht_name t = ht_name t' \<and> ht_path t = ht_path t'" if "hs_heap st' q = Some t'" for q t'
  proof -
    from same_shape_at [OF assms(2), of q] that
    have "Some (ht_name t', ht_path t') = map_option (\<lambda>t. (ht_name t, ht_path t)) (hs_heap st q)" by simp
    then show ?thesis by (cases "hs_heap st q") simp_all
  qed
  have tem: "hs_templates st' = hs_templates st" using assms(2) by (simp add: same_shape_def)
  show ?thesis
    unfolding ranked_def tem page_parent_shape [OF assms(2)]
  proof (intro conjI allI impI ballI)
    fix q assume "hs_heap st' q \<noteq> None"
    with assms(1) same_shape_dom [OF assms(2), of q] show "r q \<le> N" by (auto simp: ranked_def)
  next
    fix p t' buf nt tn d
    assume "hs_heap st' p = Some t'" "fs_read fs (ht_path t') = Inr buf" "parse (ht_name t') buf = Inr nt"
      "tn \<in> set (own_deps (ht_name t') nt)" "hs_templates st tn = Some d"
    with obj [of p t'] assms(1) show "r d < r p" unfolding ranked_def by metis
  next
    fix p t' buf nt q
    assume "hs_heap st' p = Some t'" "fs_read fs (ht_path t') = Inr buf" "parse (ht_name t') buf = Inr nt"
      "page_parent buf st = Some q"
    with obj [of p t'] assms(1) show "r q < r p" unfolding ranked_def by metis
  qed (use assms(3,4) in auto)
qed

lemma ranked_set_loaded_nil:
  assumes "ranked r N parse fs st"
  shows "ranked r N parse fs (set_loaded p ts [] st) \<and> same_shape st (set_loaded p ts [] st)"
proof -
  have sh: "same_shape st (set_loaded p ts [] st)"
    by (simp add: same_shape_def) (simp add: set_loaded_def option.map_comp comp_def)
  moreover have "r q < r d \<and> hs_heap (set_loaded p ts [] st) d \<noteq> None" if "dependent (set_loaded p ts [] st) q n = Some d" for q n d
    using that assms same_shape_dom [OF sh, of d] by (simp add: ranked_def)
  moreover have "r d < r q" if "tn \<in> set (obj_deps (set_loaded p ts [] st) q)" "hs_templates st tn = Some d" for q tn d
  proof -
    have "tn \<in> set (obj_deps st q)"
      using that(1) by (cases "hs_heap st p"; cases "q = p") (simp_all add: obj_deps_def set_loaded_def)
    with assms that(2) show ?thesis by (auto simp: ranked_def)
  qed
  ultimately show ?thesis using ranked_shape [OF assms] by blast
qed

lemma ranked_load:
  assumes rk: "ranked r N parse fs st" and load: "html_load parse fs p st = Some (e, st')"
  shows "ranked r N parse fs st' \<and> same_shape st st'"
proof -
  from load obtain t where t: "hs_heap st p = Some t"
    by (cases "hs_heap st p") (auto simp: html_load_def)
  show ?thesis
  proof (cases "fs_read fs (ht_path t)")
    case (Inl er)
    with load t rk show ?thesis by (auto simp: html_load_def)
  next
    case (Inr buf)
    note rd = this
    show ?thesis
    proof (cases "buf = []")
      case True
      with load t rd ranked_set_loaded_nil [OF rk] show ?thesis by (auto simp: html_load_def)
    next
      case ne: False
      show ?thesis
      proof (cases "parse (ht_name t) buf")
        case (Inl er)
        with load t rd ne ranked_set_loaded_nil [OF rk] show ?thesis by (auto simp: html_load_def)
      next
        case (Inr nt)
        let ?deps = "page_deps (ht_name t) buf nt st"
        from html_load_parsed [of st p t fs buf parse nt, OF t rd ne Inr] html_load_success [OF load t rd ne Inr] load
        obtain t' where st': "hs_templates st' = hs_templates st" and t': "hs_heap st' p = Some t'" "ht_deps t' = ?deps"
            "ht_name t' = ht_name t" "ht_path t' = ht_path t"
          and dep: "\<And>q m. dependent st' q m =
              (if m = ht_name t \<and> ((\<exists>tn \<in> set ?deps. hs_templates st tn = Some q) \<or> page_parent buf st = Some q)
               then Some p else dependent st q m)"
          and other: "\<And>q. q \<noteq> p \<Longrightarrow> core st' q = core st q"
          by auto
        have sh: "same_shape st st'"
          unfolding same_shape_def
        proof (intro conjI allI)
          fix q show "map_option (\<lambda>t. (ht_name t, ht_path t)) (hs_heap st' q) = map_option (\<lambda>t. (ht_name t, ht_path t)) (hs_heap st q)"
          proof (cases "q = p")
            case True
            with t t' show ?thesis by simp
          next
            case False
            from arg_cong [OF other [OF False], of "map_option (\<lambda>t. (ht_name t, ht_path t))"] show ?thesis
              by (simp add: core_def option.map_comp comp_def)
          qed
        qed (rule st')
        have parent: "r q < r p" if "page_parent buf st = Some q" for q
          using rk t rd Inr that unfolding ranked_def by blast
        have deps: "r d < r p" if "tn \<in> set ?deps" "hs_templates st tn = Some d" for tn d
        proof -
          from page_deps_cases [OF that(1)] show ?thesis
          proof
            assume "tn \<in> set (own_deps (ht_name t) nt)"
            with rk t rd Inr that(2) show ?thesis unfolding ranked_def by blast
          next
            assume "\<exists>q. page_parent buf st = Some q \<and> tn \<in> set (obj_deps st q)"
            then obtain q where "page_parent buf st = Some q" "tn \<in> set (obj_deps st q)" by blast
            with parent [of q] rk that(2) have "r d < r q" "r q < r p" unfolding ranked_def by blast+
            then show ?thesis by simp
          qed
        qed
        have "r q < r d \<and> hs_heap st' d \<noteq> None" if "dependent st' q n = Some d" for q n d
          using that dep [of q n] parent [of q] deps t' rk same_shape_dom [OF sh, of d]
          by (auto simp: ranked_def split: if_splits)
        moreover have "r d < r q" if "tn \<in> set (obj_deps st' q)" "hs_templates st tn = Some d" for q tn d
        proof (cases "q = p")
          case True
          with that t' deps show ?thesis by (simp add: obj_deps_def)
        next
          case False
          with that other [OF False] rk show ?thesis by (simp add: obj_deps_core ranked_def)
        qed
        ultimately show ?thesis using ranked_shape [OF rk sh] sh by blast
      qed
    qed
  qed
qed

lemma ranked_forget_dependent:
  assumes "ranked r N parse fs st"
  shows "ranked r N parse fs (update_obj p (\<lambda>t. t\<lparr>ht_dependents := (ht_dependents t)(n := None)\<rparr>) st) \<and>
    same_shape st (update_obj p (\<lambda>t. t\<lparr>ht_dependents := (ht_dependents t)(n := None)\<rparr>) st)"
proof -
  let ?st = "update_obj p (\<lambda>t. t\<lparr>ht_dependents := (ht_dependents t)(n := None)\<rparr>) st"
  have sh: "same_shape st ?st" by (simp add: same_shape_def option.map_comp comp_def)
  have dep: "dependent st q m = Some d" if "dependent ?st q m = Some d" for q m d
    using that by (cases "hs_heap st p"; cases "q = p") (auto simp: dependent_def split: if_splits)
  have obj: "obj_deps ?st q = obj_deps st q" for q
    by (cases "hs_heap st p"; cases "q = p") (simp_all add: obj_deps_def)
  have "r q < r d \<and> hs_heap ?st d \<noteq> None" if "dependent ?st q m = Some d" for q m d
    using dep [OF that] assms same_shape_dom [OF sh, of d] by (simp add: ranked_def)
  moreover have "r d < r q" if "tn \<in> set (obj_deps ?st q)" "hs_templates st tn = Some d" for q tn d
    using that assms unfolding obj ranked_def by blast
  ultimately show ?thesis using ranked_shape [OF assms sh] sh by blast
qed

lemma reload_ranked:
  "ranked r N parse fs st \<Longrightarrow> hs_heap st p \<noteq> None \<Longrightarrow> N - r p < k \<Longrightarrow>
     html_reload k rng parse fs p st \<noteq> NoFuel \<and>
     (\<forall>e st'. html_reload k rng parse fs p st = Returns (e, st') \<longrightarrow> ranked r N parse fs st' \<and> same_shape st st')"
  "ranked r N parse fs st \<Longrightarrow> hs_heap st p \<noteq> None \<Longrightarrow> N - r p \<le> k \<Longrightarrow>
     reload_deps k rng parse fs p ns st \<noteq> NoFuel \<and>
     (\<forall>e st'. reload_deps k rng parse fs p ns st = Returns (e, st') \<longrightarrow> ranked r N parse fs st' \<and> same_shape st st')"
proof (induction k rng parse fs p st and k rng parse fs p ns st rule: html_reload_reload_deps.induct)
  case (2 k rng parse fs p st)
  show ?case
  proof (cases "html_load parse fs p st")
    case (Some x)
    obtain e st1 where x: "x = (e, st1)" by force
    from Some x ranked_load [OF "2.prems"(1)] have r1: "ranked r N parse fs st1" "same_shape st st1" by auto
    with "2.prems"(2) same_shape_dom obtain t where t: "hs_heap st1 p = Some t" by fastforce
    show ?thesis
    proof (cases e)
      case None
      have "N - r p \<le> k" using "2.prems"(3) by simp
      with "2.IH" [OF Some [unfolded x] refl None t r1(1)] t have
        "reload_deps k rng parse fs p (rng (ht_dependents t)) st1 \<noteq> NoFuel \<and>
         (\<forall>e st'. reload_deps k rng parse fs p (rng (ht_dependents t)) st1 = Returns (e, st') \<longrightarrow>
            ranked r N parse fs st' \<and> same_shape st1 st')" by simp
      with Some x None t r1(2) show ?thesis by (auto intro: same_shape_trans)
    next
      case (Some er)
      with \<open>html_load parse fs p st = Some x\<close> x r1 show ?thesis by simp
    qed
  qed simp
next
  case (4 k rng parse fs p n ns st)
  show ?case
  proof (cases "Option.bind (hs_heap st p) (\<lambda>t. ht_dependents t n)")
    case None
    from "4.IH"(1) [OF None "4.prems"] None show ?thesis by simp
  next
    case (Some q)
    then have "dependent st p n = Some q" by (simp add: dependent_def)
    with "4.prems"(1) have q: "r p < r q" "hs_heap st q \<noteq> None" "r q \<le> N" by (auto simp: ranked_def)
    with "4.prems"(3) have "N - r q < k" by simp
    note ih = "4.IH"(2) [OF Some "4.prems"(1) q(2) this]
    show ?thesis
    proof (cases "html_reload k rng parse fs q st")
      case (Returns x)
      obtain e st1 where x: "x = (e, st1)" by force
      from ih Returns x have r1: "ranked r N parse fs st1" "same_shape st st1" by auto
      have p1: "hs_heap st1 p \<noteq> None" using same_shape_dom [OF r1(2)] "4.prems"(2) by simp
      show ?thesis
      proof (cases e)
        case None
        from "4.IH"(3) [OF Some Returns [unfolded x] refl None r1(1) p1 "4.prems"(3)] r1(2) None x Some Returns
        show ?thesis by (auto intro: same_shape_trans)
      next
        case er: (Some er)
        show ?thesis
        proof (cases "errors_is er ErrNotExist")
          case True
          let ?st = "update_obj p (\<lambda>t. t\<lparr>ht_dependents := (ht_dependents t)(n := None)\<rparr>) st1"
          have fg: "ranked r N parse fs ?st" "same_shape st1 ?st" using ranked_forget_dependent [OF r1(1)] by auto
          have p2: "hs_heap ?st p \<noteq> None" using same_shape_dom [OF fg(2)] p1 by simp
          from "4.IH"(4) [OF Some Returns [unfolded x] refl er True fg(1) p2 "4.prems"(3)] r1(2) fg(2) er True x Some Returns
          show ?thesis by (auto intro: same_shape_trans)
        next
          case False
          with Some Returns x er r1 show ?thesis by simp
        qed
      qed
    qed (use Some ih in simp_all)
  qed
qed simp_all

section \<open>Mutual blocks\<close>

text \<open>Two templates without layout that define a block of the other's name, each a dependent of the other.\<close>

definition refers_to :: "html_parser \<Rightarrow> fs_node \<Rightarrow> html_template \<Rightarrow> string \<Rightarrow> bool" where
  "refers_to parse fs t n \<longleftrightarrow>
     (\<exists>buf nt. fs_read fs (ht_path t) = Inr buf \<and> buf \<noteq> [] \<and> layout_comment buf = None \<and>
        parse (ht_name t) buf = Inr nt \<and> own_deps (ht_name t) nt = [n])"

definition block_pair :: "html_parser \<Rightarrow> fs_node \<Rightarrow> html_store \<Rightarrow> nat \<Rightarrow> nat \<Rightarrow> bool" where
  "block_pair parse fs st p q \<longleftrightarrow>
     (\<exists>a b. hs_heap st p = Some a \<and> hs_heap st q = Some b \<and> p \<noteq> q \<and> ht_name a \<noteq> ht_name b \<and>
        ht_template a \<noteq> None \<and> ht_template b \<noteq> None \<and>
        hs_templates st (ht_name a) = Some p \<and> hs_templates st (ht_name b) = Some q \<and>
        refers_to parse fs a (ht_name b) \<and> refers_to parse fs b (ht_name a) \<and>
        ht_dependents a = [ht_name b \<mapsto> q] \<and> ht_dependents b = [ht_name a \<mapsto> p])"

lemma core_fields:
  assumes "hs_heap st q = Some t" "core st' q = core st q"
  shows "\<exists>t'. hs_heap st' q = Some t' \<and> ht_name t' = ht_name t \<and> ht_path t' = ht_path t \<and>
    ht_template t' = ht_template t \<and> ht_layout t' = ht_layout t \<and> ht_deps t' = ht_deps t"
proof -
  from assms obtain t' where t': "hs_heap st' q = Some t'" "t'\<lparr>ht_dependents := Map.empty\<rparr> = t\<lparr>ht_dependents := Map.empty\<rparr>"
    by (cases "hs_heap st' q") (auto simp: core_def)
  from t'(1) arg_cong [OF t'(2), of ht_name] arg_cong [OF t'(2), of ht_path] arg_cong [OF t'(2), of ht_template]
    arg_cong [OF t'(2), of ht_layout] arg_cong [OF t'(2), of ht_deps]
  show ?thesis by simp
qed

lemma block_pair_load:
  assumes "block_pair parse fs st p q"
  shows "\<exists>st'. html_load parse fs p st = Some (None, st') \<and> block_pair parse fs st' p q"
proof -
  from assms obtain a b where ab: "hs_heap st p = Some a" "hs_heap st q = Some b" "p \<noteq> q" "ht_name a \<noteq> ht_name b"
      "ht_template b \<noteq> None" "hs_templates st (ht_name a) = Some p" "hs_templates st (ht_name b) = Some q"
    and ra: "refers_to parse fs a (ht_name b)" and rb: "refers_to parse fs b (ht_name a)"
    and da: "ht_dependents a = [ht_name b \<mapsto> q]" and db: "ht_dependents b = [ht_name a \<mapsto> p]"
    by (auto simp: block_pair_def)
  from ra obtain buf nt where f: "fs_read fs (ht_path a) = Inr buf" "buf \<noteq> []" "parse (ht_name a) buf = Inr nt"
    and lc: "layout_comment buf = None" and own: "own_deps (ht_name a) nt = [ht_name b]"
    by (auto simp: refers_to_def)
  have deps: "page_deps (ht_name a) buf nt st = [ht_name b]" and par: "page_parent buf st = None"
    by (simp_all add: page_deps_def page_parent_def lc own Let_def)
  have "\<not> (\<exists>tn \<in> set [ht_name b]. \<exists>d. hs_templates st tn = Some d \<and> loaded st d = None)"
    using ab by (simp add: loaded_def)
  with html_load_parsed [of st p a fs buf parse nt, OF ab(1) f] par
  obtain st' a' ts where ld: "html_load parse fs p st = Some (None, st')" and tem: "hs_templates st' = hs_templates st"
    and a': "hs_heap st' p = Some a'" "ht_template a' = Some ts" "ht_name a' = ht_name a" "ht_path a' = ht_path a"
    and dep: "\<And>x m. dependent st' x m =
       (if m = ht_name a \<and> hs_templates st (ht_name b) = Some x then Some p else dependent st x m)"
    and other: "\<And>x. x \<noteq> p \<Longrightarrow> core st' x = core st x"
    unfolding deps by auto
  from core_fields [OF ab(2)] other [of q] ab(3) obtain b' where b': "hs_heap st' q = Some b'" "ht_name b' = ht_name b"
    "ht_path b' = ht_path b" "ht_template b' = ht_template b" by auto
  have "ht_dependents a' n = [ht_name b \<mapsto> q] n" for n
    using dep [of p n] ab da a'(1) by (auto simp: dependent_def)
  moreover have "ht_dependents b' n = [ht_name a \<mapsto> p] n" for n
    using dep [of q n] ab db b'(1) by (auto simp: dependent_def)
  ultimately show ?thesis
    using ld tem a' b' ab ra rb unfolding block_pair_def refers_to_def by (intro exI [of _ st'] conjI exI [of _ a'] exI [of _ b']) (simp_all add: fun_eq_iff)
qed

lemma block_pair_sym: "block_pair parse fs st p q \<Longrightarrow> block_pair parse fs st q p"
  by (auto simp: block_pair_def)

lemma map_order_single: "map_order rng \<Longrightarrow> rng [k \<mapsto> v] = [k]"
proof -
  assume "map_order rng"
  then have d: "distinct (rng [k \<mapsto> v])" "set (rng [k \<mapsto> v]) = {k}"
    using map_orderD [of rng "[k \<mapsto> v]"] by auto
  then have "length (rng [k \<mapsto> v]) = 1" using distinct_card [of "rng [k \<mapsto> v]"] by simp
  with d(2) show ?thesis by (auto simp: length_Suc_conv)
qed

lemma block_pair_reload:
  assumes rng: "map_order rng"
  shows "block_pair parse fs st p q \<Longrightarrow> html_reload k rng parse fs p st = NoFuel"
proof (induction k arbitrary: st p q)
  case (Suc k)
  from block_pair_load [OF Suc.prems] obtain st' where ld: "html_load parse fs p st = Some (None, st')"
    and bp: "block_pair parse fs st' p q" by blast
  from bp obtain a and b :: html_template where "hs_heap st' p = Some a" "ht_dependents a = [ht_name b \<mapsto> q]"
    unfolding block_pair_def by blast
  with ld Suc.IH [OF block_pair_sym [OF bp]] show ?case
    by (simp add: map_order_single [OF rng])
qed simp

text \<open>Every template in the table has been loaded.\<close>

definition all_loaded :: "html_store \<Rightarrow> bool" where
  "all_loaded st \<longleftrightarrow> (\<forall>tn d. hs_templates st tn = Some d \<longrightarrow> loaded st d \<noteq> None)"

section \<open>Properties\<close>


text \<open>
  A layout cannot be taken back. When the comment is removed from a page that had a
  layout, \<open>Load\<close> succeeds but the object keeps the old layout, which its new set does not
  define: executing the page fails.
\<close>

theorem removed_layout_comment_breaks_page:
  assumes "hs_heap st p = Some t" and "ht_layout t = layout_key l"
    and "fs_read fs (ht_path t) = Inr buf" and "buf \<noteq> []" and "parse (ht_name t) buf = Inr nt"
    and "layout_comment buf = None" and "map_of (ts_set nt) (layout_key l) = None"
    and "all_loaded st"
  shows "\<exists>st' t'. html_load parse fs p st = Some (None, st') \<and> hs_heap st' p = Some t' \<and>
    html_execute exec t' data = Some (Inl (ErrMsg (''html/template: '' @ layout_key l @ '' is undefined'')))"
proof -
  have par: "page_parent buf st = None" and start: "page_start (ht_name t) buf nt st = nt"
    and deps: "page_deps (ht_name t) buf nt st = own_deps (ht_name t) nt"
    using assms(6) by (simp_all add: page_parent_def page_start_def page_deps_def)
  have alive: "\<not> (\<exists>tn \<in> S. \<exists>d. hs_templates st tn = Some d \<and> loaded st d = None)" for S
    using assms(8) by (auto simp: all_loaded_def)
  from html_load_parsed [of st p t fs buf parse nt, OF assms(1,3-5)] par alive
  obtain st' t' ts where ld: "html_load parse fs p st = Some (None, st')" "hs_heap st' p = Some t'"
      "ht_template t' = Some ts" "ht_layout t' = page_layout buf (ht_layout t)" and
    set: "\<And>n. map_of (ts_set ts) n =
       (if n \<in> set (own_deps (ht_name t) nt) \<and> hs_templates st n \<noteq> None then obj_tree st (the (hs_templates st n))
        else map_of (ts_set nt) n)"
    unfolding start deps by auto
  have "layout_key l \<notin> set (own_deps (ht_name t) nt)"
    using assms(7) by (auto simp: own_deps_def map_of_eq_None_iff)
  with set [of "layout_key l"] assms(7) have "map_of (ts_set ts) (layout_key l) = None" by simp
  moreover have "ht_layout t' = layout_key l" using ld(4) assms(2,6) by (simp add: page_layout_def)
  moreover have "layout_key l \<noteq> []" by (simp add: layout_key_def)
  ultimately show ?thesis using ld by (simp add: html_execute_def)
qed

text \<open>
  A broken edit takes the page down. When a file no longer parses, \<open>Load\<close> returns the
  error, but its deferred assignment has replaced the template that worked by nil: every
  later execution panics, and so does every load of a page whose layout or component it is.
\<close>

theorem broken_edit_loses_template:
  assumes "hs_heap st p = Some t" and "fs_read fs (ht_path t) = Inr buf" and "buf \<noteq> []"
    and "parse (ht_name t) buf = Inl e"
    and "hs_heap st p2 = Some t2" and "p2 \<noteq> p" and "fs_read fs (ht_path t2) = Inr buf2"
    and "parse (ht_name t2) buf2 = Inr nt2" and "page_parent buf2 st = Some p"
  shows "\<exists>st' t'. html_load parse fs p st = Some (Some e, st') \<and> hs_heap st' p = Some t' \<and>
    html_execute exec t' data = None \<and> html_load parse fs p2 st' = None"
proof -
  let ?st = "set_loaded p None [] st"
  have ld: "html_load parse fs p st = Some (Some e, ?st)"
    using assms(1-4) by (simp add: html_load_def)
  have hp: "hs_heap ?st p = Some (t\<lparr>ht_template := None, ht_deps := []\<rparr>)" "hs_heap ?st p2 = Some t2"
    using assms(1,5,6) by (simp_all add: set_loaded_def)
  have "page_parent buf2 ?st = page_parent buf2 st"
    by (cases "layout_comment buf2") (simp_all add: page_parent_def)
  with assms(9) have par: "page_parent buf2 ?st = Some p" by simp
  have ne: "buf2 \<noteq> []" using assms(9) by (auto simp: page_parent_def layout_comment_def split: if_splits)
  have "html_load parse fs p2 ?st = None"
  proof (rule ccontr)
    assume "html_load parse fs p2 ?st \<noteq> None"
    then obtain r st2 where "html_load parse fs p2 ?st = Some (r, st2)" by auto
    from html_load_success [OF this hp(2) assms(7) ne assms(8) par] hp(1) show False by (simp add: loaded_def)
  qed
  with ld hp show ?thesis by (simp add: html_execute_def)
qed

text \<open>
  C9: \<open>Reload\<close> ends when the files and the dependents admit a rank, and never by running
  out of the given fuel; it keeps the rank, so every later reload ends too.
\<close>

theorem reload_terminates:
  assumes "ranked r N parse fs st" and "hs_heap st p \<noteq> None"
  shows "html_reload (Suc N) rng parse fs p st \<noteq> NoFuel \<and>
    (\<forall>e st'. html_reload (Suc N) rng parse fs p st = Returns (e, st') \<longrightarrow> ranked r N parse fs st')"
  using reload_ranked(1) [OF assms, of "Suc N" rng] by auto

text \<open>
  C10: without a rank it need not end. Two components that define a block of each other's
  name are dependents of each other, and the reload of either exhausts every fuel.
\<close>

theorem mutual_blocks_reload_diverges:
  assumes "map_order rng" and "block_pair parse fs st p q"
  shows "html_reload k rng parse fs p st = NoFuel"
  by (rule block_pair_reload [OF assms])

section \<open>Witnesses\<close>

text \<open>
  A parser of sources such as \<open>body|a|b\<close>, a file with the given root that defines \<open>a\<close> and
  \<open>b\<close> (a source that starts with \<open>!\<close> does not parse); a layout, a page and a component.
\<close>

definition demo_parse :: html_parser where
  "demo_parse name src =
     (if has_prefix src ''!'' then Inl (ErrMsg ''syntax'')
      else Inr \<lparr>ts_tree = hd (go_split src CHR ''|''),
             ts_set = (name, hd (go_split src CHR ''|'')) #
                map (\<lambda>n. (n, name @ ''#'' @ n)) (tl (go_split src CHR ''|''))\<rparr>)"

definition demo_files :: "string \<Rightarrow> string \<Rightarrow> fs_node" where
  "demo_files page nav = DirNode None
     [(''components'', DirNode None [(''nav.html'', FileNode (Inr 1) (Inr nav))]),
      (''layouts'', DirNode None [(''home.html'', FileNode (Inr 1) (Inr ''L|content''))]),
      (''pages'', DirNode None [(''index.html'', FileNode (Inr 1) (Inr page))])]"

definition demo_layout :: html_template where
  "demo_layout = \<lparr>ht_template = Some \<lparr>ts_tree = ''L'', ts_set = [(''layouts/home'', ''L''), (''content'', ''none'')]\<rparr>,
     ht_name = ''layouts/home'', ht_path = ''layouts/home.html'', ht_layout = [], ht_deps = [''content''],
     ht_dependents = Map.empty\<rparr>"

definition demo_page :: html_template where
  "demo_page = \<lparr>ht_template = Some \<lparr>ts_tree = ''old'', ts_set = [(''index.html'', ''old''), (''layouts/home'', ''L'')]\<rparr>,
     ht_name = ''index.html'', ht_path = ''pages/index.html'', ht_layout = ''layouts/home'', ht_deps = [],
     ht_dependents = Map.empty\<rparr>"

definition demo_store :: html_store where
  "demo_store = \<lparr>hs_heap = [0 \<mapsto> demo_layout, 1 \<mapsto> demo_page], hs_next = 2,
     hs_templates = [''layouts/home'' \<mapsto> 0, ''pages/index'' \<mapsto> 1]\<rparr>"

lemma demo_read:
  "fs_read (demo_files page nav) ''pages/index.html'' = Inr page"
  "fs_read (demo_files page nav) ''layouts/home.html'' = Inr ''L|content''"
  by (simp_all add: fs_read_def fs_lookup_def path_parts_def demo_files_def)

lemma demo_loaded: "all_loaded demo_store"
  by (auto simp: all_loaded_def demo_store_def loaded_def demo_layout_def demo_page_def split: if_splits)

lemma demo_heap: "hs_heap demo_store 1 = Some demo_page" "hs_heap demo_store 0 = Some demo_layout"
  by (simp_all add: demo_store_def)


theorem removed_layout_comment_breaks_page_witness:
  "\<exists>st' t'. html_load demo_parse (demo_files ''plain'' ''n'') 1 demo_store = Some (None, st') \<and> hs_heap st' 1 = Some t' \<and>
     html_execute (\<lambda>ts n d. Inr n) t' () = Some (Inl (ErrMsg ''html/template: layouts/home is undefined''))"
proof -
  have p: "ht_layout demo_page = layout_key ''home''"
    "fs_read (demo_files ''plain'' ''n'') (ht_path demo_page) = Inr ''plain''"
    "''plain'' \<noteq> []" "demo_parse (ht_name demo_page) ''plain'' = Inr \<lparr>ts_tree = ''plain'', ts_set = [(''index.html'', ''plain'')]\<rparr>"
    by (simp_all add: layout_key_def demo_page_def demo_read demo_parse_def)
  have l: "layout_comment ''plain'' = None" by (simp add: layout_comment_def)
  have "map_of (ts_set \<lparr>ts_tree = ''plain'', ts_set = [(''index.html'', ''plain'')]\<rparr>) (layout_key ''home'') = None"
    by (simp add: layout_key_def)
  from removed_layout_comment_breaks_page [where parse = demo_parse, OF demo_heap(1) p l this demo_loaded, of "\<lambda>ts n d. Inr n" "()"] show ?thesis
    by (simp add: layout_key_def)
qed

theorem broken_edit_loses_template_witness:
  "\<exists>st' t'. html_load demo_parse (DirNode None [(''layouts'', DirNode None [(''home.html'', FileNode (Inr 2) (Inr ''!''))]),
        (''pages'', DirNode None [(''index.html'', FileNode (Inr 1) (Inr ''<!--layout:home-->|content''))])]) 0 demo_store =
       Some (Some (ErrMsg ''syntax''), st') \<and> hs_heap st' 0 = Some t' \<and> html_execute (\<lambda>ts n d. Inr n) t' () = None"
proof -
  let ?fs = "DirNode None [(''layouts'', DirNode None [(''home.html'', FileNode (Inr 2) (Inr ''!''))]),
        (''pages'', DirNode None [(''index.html'', FileNode (Inr 1) (Inr ''<!--layout:home-->|content''))])]"
  have a: "fs_read ?fs (ht_path demo_layout) = Inr ''!''" "''!'' \<noteq> []" "demo_parse (ht_name demo_layout) ''!'' = Inl (ErrMsg ''syntax'')"
    by (simp_all add: fs_read_def fs_lookup_def path_parts_def demo_layout_def demo_parse_def)
  have b: "(1::nat) \<noteq> 0" "fs_read ?fs (ht_path demo_page) = Inr ''<!--layout:home-->|content''"
    "demo_parse (ht_name demo_page) ''<!--layout:home-->|content'' = Inr \<lparr>ts_tree = ''<!--layout:home-->'',
       ts_set = [(''index.html'', ''<!--layout:home-->''), (''content'', ''index.html#content'')]\<rparr>"
    by (simp_all add: fs_read_def fs_lookup_def path_parts_def demo_page_def demo_parse_def)
  have "layout_comment ''<!--layout:home-->|content'' = Some ''home''" by code_simp
  then have "page_parent ''<!--layout:home-->|content'' demo_store = Some 0"
    by (simp add: page_parent_def layout_key_def demo_store_def)
  from broken_edit_loses_template [where parse = demo_parse, OF demo_heap(2) a demo_heap(1) b this, of "\<lambda>ts n d. Inr n" "()"] show ?thesis by auto
qed

theorem reload_terminates_witness:
  "\<exists>rng. map_order rng \<and>
     html_reload 2 rng demo_parse (demo_files ''<!--layout:home-->|content'' ''n'') 0 demo_store \<noteq> NoFuel"
proof -
  obtain rng :: dep_order where rng: "map_order rng" using map_order_exists by blast
  let ?src = "''<!--layout:home-->|content''"
  let ?fs = "demo_files ?src ''n''"
  have l: "layout_comment ?src = Some ''home''" "layout_comment ''L|content'' = None" by code_simp+
  have "ranked (\<lambda>p. p) 1 demo_parse ?fs demo_store"
    unfolding ranked_def
  proof (intro conjI allI impI ballI)
    fix p t buf nt tn d
    assume h: "hs_heap demo_store p = Some t" "fs_read ?fs (ht_path t) = Inr buf" "demo_parse (ht_name t) buf = Inr nt"
      "tn \<in> set (own_deps (ht_name t) nt)" "hs_templates demo_store tn = Some d"
    then have "tn = ''content''"
      by (auto simp: demo_store_def demo_read demo_page_def demo_layout_def demo_parse_def own_deps_def split: if_splits)
    with h(5) show "d < p" by (simp add: demo_store_def)
  next
    fix p t buf nt q
    assume "hs_heap demo_store p = Some t" "fs_read ?fs (ht_path t) = Inr buf" "page_parent buf demo_store = Some q"
    then show "q < p"
      by (auto simp: demo_store_def demo_read demo_page_def demo_layout_def page_parent_def l layout_key_def split: if_splits)
  qed (auto simp: demo_store_def dependent_def obj_deps_def demo_page_def demo_layout_def split: if_splits)
  from reload_terminates [OF this, of 0 rng] rng show ?thesis by (auto simp: demo_heap numeral_2_eq_2)
qed

definition demo_pair :: html_store where
  "demo_pair = \<lparr>hs_heap =
     [0 \<mapsto> \<lparr>ht_template = Some \<lparr>ts_tree = ''A'', ts_set = []\<rparr>, ht_name = ''components/a'', ht_path = ''a.html'', ht_layout = [],
        ht_deps = [''components/b''], ht_dependents = [''components/b'' \<mapsto> 1]\<rparr>,
      1 \<mapsto> \<lparr>ht_template = Some \<lparr>ts_tree = ''B'', ts_set = []\<rparr>, ht_name = ''components/b'', ht_path = ''b.html'', ht_layout = [],
        ht_deps = [''components/a''], ht_dependents = [''components/a'' \<mapsto> 0]\<rparr>],
     hs_next = 2, hs_templates = [''components/a'' \<mapsto> 0, ''components/b'' \<mapsto> 1]\<rparr>"

theorem mutual_blocks_reload_diverges_witness:
  "\<exists>rng. html_reload 1000 rng demo_parse
     (DirNode None [(''a.html'', FileNode (Inr 1) (Inr ''A|components/b'')), (''b.html'', FileNode (Inr 1) (Inr ''B|components/a''))])
     0 demo_pair = NoFuel"
proof -
  obtain rng :: dep_order where rng: "map_order rng" using map_order_exists by blast
  have e: "\<not> equal_fold ''components/b'' ''components/a''" "\<not> equal_fold ''components/a'' ''components/b''" by code_simp+
  have "block_pair demo_parse
     (DirNode None [(''a.html'', FileNode (Inr 1) (Inr ''A|components/b'')), (''b.html'', FileNode (Inr 1) (Inr ''B|components/a''))])
     demo_pair 0 1"
    by (simp add: block_pair_def demo_pair_def refers_to_def fs_read_def fs_lookup_def path_parts_def demo_parse_def
        own_deps_def layout_comment_def e)
  from mutual_blocks_reload_diverges [OF rng this] show ?thesis by blast
qed

end
