(* ===== verification/ViewEngines.thy ===== *)
theory ViewEngines
  imports Routing FsWatch HtmlTemplate
begin

text \<open>
  The three view engines (\<open>viewengine_*.go\<close>), text templates (\<open>template_text.go\<close>), and hot
  reload: what \<open>New\<close> loads from the file tree and what each event of the watcher changes.

  The state of a running application is its routing state with the tables of the HTML and
  the text engine; what the loggers get is \<open>s_log\<close>. What the engines need from outside
  (parsers, MIME detection, the mux, the order of map ranges) is the record of parameters.
\<close>

section \<open>Text templates\<close>

record text_template =
  tt_template :: "tset option"
  tt_name :: string
  tt_mime :: mime
  tt_charset :: string

record text_store =
  ts_heap :: "nat \<Rightarrow> text_template option"
  ts_next :: nat
  ts_templates :: "string \<Rightarrow> nat option"

record loader =
  l_ok :: mux_check
  l_env :: env
  l_html :: html_parser
  l_rng :: dep_order
  l_fuel :: nat
  l_text :: html_parser
  l_by_ext :: "string \<Rightarrow> string"
  l_detect :: "string \<Rightarrow> string"
  l_embed :: bool
  l_build :: "(string \<Rightarrow> bool) list"

record site =
  s_app :: app
  s_html :: html_store
  s_text :: text_store
  s_log :: "gerr list"

text \<open>\<open>TextTemplate.Load\<close>: on an error the template is left as it was.\<close>

definition text_load :: "loader \<Rightarrow> fs_node \<Rightarrow> text_template \<Rightarrow> gerr option \<times> text_template" where
  "text_load L fs t =
     (case fs_read fs (tt_name t) of
        Inl e \<Rightarrow> (Some e, t)
      | Inr buf \<Rightarrow>
          if buf = []
          then (None, t\<lparr>tt_template := (case l_text L (tt_name t) [] of Inl e \<Rightarrow> None | Inr nt \<Rightarrow> Some nt),
                  tt_mime := \<lparr>m_type = ''text'', m_sub = ''plain''\<rparr>, tt_charset := ''; charset=utf-8''\<rparr>)
          else (case l_text L (tt_name t) buf of
                  Inl e \<Rightarrow> (Some e, t)
                | Inr nt \<Rightarrow>
                    let (m, cs) = get_mime_type (l_by_ext L) (l_detect L) (tt_name t) buf
                    in (None, t\<lparr>tt_template := Some nt, tt_mime := m, tt_charset := cs\<rparr>)))"

definition text_reload :: "loader \<Rightarrow> fs_node \<Rightarrow> text_template \<Rightarrow> gerr option \<times> text_template" where
  "text_reload L fs t = text_load L fs t"

definition text_execute :: "'d executor \<Rightarrow> text_template \<Rightarrow> 'd \<Rightarrow> (gerr + string) option" where
  "text_execute exec t data = map_option (\<lambda>ts. exec ts (tt_name t) data) (tt_template t)"

definition text_load_template :: "loader \<Rightarrow> fs_node \<Rightarrow> string \<Rightarrow> site \<Rightarrow> (gerr + nat) \<times> site" where
  "text_load_template L fs path s =
     (case text_load L fs \<lparr>tt_template = None, tt_name = path, tt_mime = \<lparr>m_type = [], m_sub = []\<rparr>, tt_charset = []\<rparr> of
        (Some e, t) \<Rightarrow> (Inl e, s)
      | (None, t) \<Rightarrow>
          let st = s_text s; p = ts_next st
          in (Inr p, s\<lparr>s_text := \<lparr>ts_heap = (ts_heap st)(p := Some t), ts_next = Suc p,
                 ts_templates = (ts_templates st)(path := Some p)\<rparr>\<rparr>))"

definition load_text :: "loader \<Rightarrow> fs_node \<Rightarrow> string \<Rightarrow> site \<Rightarrow> gerr option \<times> site" where
  "load_text L fs path s =
     (case text_load_template L fs path s of
        (Inl e, s1) \<Rightarrow> (Some e, s1)
      | (Inr p, s1) \<Rightarrow>
          (None, s1\<lparr>s_app := (s_app s1)\<lparr>a_viewers := (a_viewers (s_app s1))(path := Some (TextViewer p))\<rparr>\<rparr>))"

definition log_error :: "gerr option \<Rightarrow> site \<Rightarrow> site" where
  "log_error e s = (case e of None \<Rightarrow> s | Some er \<Rightarrow> s\<lparr>s_log := s_log s @ [er]\<rparr>)"

definition is_file :: "fs_node option \<Rightarrow> bool" where
  "is_file d = (case d of None \<Rightarrow> False | Some n \<Rightarrow> \<not> is_dir n)"

definition text_engine_load :: "loader \<Rightarrow> fs_node \<Rightarrow> site \<Rightarrow> site option" where
  "text_engine_load L fs s =
     map_option snd (walk_dir (\<lambda>path d err s.
       if is_file d then (let (e, s1) = load_text L fs path s in Some (None, log_error e s1))
       else Some (None, s)) fs ''text'' s)"

definition text_file_changed :: "loader \<Rightarrow> fs_node \<Rightarrow> event \<Rightarrow> site \<Rightarrow> (gerr option \<times> site) option" where
  "text_file_changed L fs ev s =
     (if event_has ev op_remove then Some (None, s)
      else if event_has ev op_write
      then (case ts_templates (s_text s) (ev_name ev) of
              None \<Rightarrow> Some (None, s)
            | Some p \<Rightarrow>
                do {
                  t \<leftarrow> ts_heap (s_text s) p;
                  (let (e, t') = text_reload L fs t
                   in Some (e, s\<lparr>s_text := (s_text s)\<lparr>ts_heap := (ts_heap (s_text s))(p := Some t')\<rparr>\<rparr>))
                })
      else if event_has ev op_create
      then (if has_prefix (ev_name ev) ''text/'' then Some (load_text L fs (ev_name ev) s) else Some (None, s))
      else Some (None, s))"

section \<open>Static files\<close>

definition open_content :: "fs_node \<Rightarrow> string \<Rightarrow> string option option" where
  "open_content fs path =
     (case fs_lookup fs path of
        None \<Rightarrow> None
      | Some (FileNode i c) \<Rightarrow> Some (case c of Inl e \<Rightarrow> None | Inr b \<Rightarrow> Some b)
      | Some (DirNode e es) \<Rightarrow> Some None)"

definition cache_control :: string where
  "cache_control = ''public, max-age=31536000, immutable''"

text \<open>\<open>strings.TrimRight(pattern, ext)\<close>: the second argument is a set of characters.\<close>

definition asset_name :: "string \<Rightarrow> string \<Rightarrow> string" where
  "asset_name pat etag =
     (let ext = path_ext pat
      in trim_right (\<lambda>c. c \<in> set ext) pat @ ''-'' @ trim_by (\<lambda>c. c = DQUOTE) etag @ ext)"

text \<open>
  \<open>handleAssetUrl\<close>: \<open>f.Close\<close> on a file that could not be opened panics; what cannot be
  read counts as empty.
\<close>

definition handle_asset_url :: "loader \<Rightarrow> fs_node \<Rightarrow> string \<Rightarrow> string \<Rightarrow> app \<Rightarrow> app option" where
  "handle_asset_url L fs file_name pat a =
     (case open_content fs file_name of
        None \<Rightarrow> None
      | Some content \<Rightarrow>
          let buf = (case content of None \<Rightarrow> [] | Some b \<Rightarrow> b);
              etag = compute_etag (Some buf);
              url = asset_name pat etag
          in do {
               a1 \<leftarrow> handle_file (l_ok L) (l_env L) url
                       (new_file_viewer (open_content fs) file_name (l_embed L) etag cache_control) a;
               Some (a1\<lparr>a_asset_urls := (a_asset_urls a1)(''/'' @ pat := Some (''/'' @ url))\<rparr>)
             })"

definition static_handle :: "loader \<Rightarrow> fs_node \<Rightarrow> string \<Rightarrow> app \<Rightarrow> app option" where
  "static_handle L fs path a =
     (let pat = static_name path
      in do {
           a1 \<leftarrow> handle_file (l_ok L) (l_env L) pat (new_file_viewer (open_content fs) path (l_embed L) [] []) a;
           (if list_ex (\<lambda>m. m (''/'' @ pat)) (l_build L)
            then handle_asset_url L fs path pat a1 else Some a1)
         })"

definition static_engine_load :: "loader \<Rightarrow> fs_node \<Rightarrow> site \<Rightarrow> site option" where
  "static_engine_load L fs s =
     map_option snd (walk_dir (\<lambda>path d err s.
       if is_file d then map_option (\<lambda>a. (None, s\<lparr>s_app := a\<rparr>)) (static_handle L fs path (s_app s))
       else Some (None, s)) fs ''public'' s)"

definition static_file_changed :: "loader \<Rightarrow> fs_node \<Rightarrow> event \<Rightarrow> site \<Rightarrow> (gerr option \<times> site) option" where
  "static_file_changed L fs ev s =
     (if has_prefix (ev_name ev) ''public/'' \<and> (event_has ev op_create \<or> event_has ev op_write)
      then map_option (\<lambda>a. (None, s\<lparr>s_app := a\<rparr>)) (static_handle L fs (ev_name ev) (s_app s))
      else Some (None, s))"

section \<open>HTML templates\<close>

definition cut_ext :: "string \<Rightarrow> string option" where
  "cut_ext path = go_slice path 0 (int (length path) - 5)"

fun relink :: "string \<Rightarrow> nat \<Rightarrow> string list \<Rightarrow> html_store \<Rightarrow> html_store" where
  "relink name p [] st = st"
| "relink name p (n # ns) st =
     relink name p ns (case hs_templates st n of None \<Rightarrow> st | Some d \<Rightarrow> set_dependent d name p st)"

definition put_template :: "string \<Rightarrow> nat \<Rightarrow> html_store \<Rightarrow> html_store" where
  "put_template k p st = st\<lparr>hs_templates := (hs_templates st)(k := Some p)\<rparr>"

text \<open>\<open>HtmlViewEngine.loadTemplate\<close>\<close>

definition html_load_template :: "loader \<Rightarrow> fs_node \<Rightarrow> string \<Rightarrow> site \<Rightarrow> ((gerr + nat) \<times> site) option" where
  "html_load_template L fs path s =
     do {
       name \<leftarrow> cut_ext path;
       (let (p, st) = alloc (new_html_template name path) (s_html s)
        in do {
             (e, st1) \<leftarrow> html_load (l_html L) fs p st;
             (case e of
                Some er \<Rightarrow> Some (Inl er, s\<lparr>s_html := st1\<rparr>)
              | None \<Rightarrow>
                  Some (Inr p, s\<lparr>s_html := put_template name p (relink name p (obj_deps st1 p) st1)\<rparr>))
           })
     }"

text \<open>\<open>HtmlViewEngine.loadPage\<close>\<close>

definition load_page :: "loader \<Rightarrow> fs_node \<Rightarrow> string \<Rightarrow> site \<Rightarrow> (gerr option \<times> site) option" where
  "load_page L fs path s =
     do {
       name \<leftarrow> go_slice path 6 (int (length path));
       (let (p, st) = alloc (new_html_template name path) (s_html s)
        in do {
             (e, st1) \<leftarrow> html_load (l_html L) fs p st;
             (case e of
                Some er \<Rightarrow> Some (Some er, s\<lparr>s_html := st1\<rparr>)
              | None \<Rightarrow>
                  do {
                    key \<leftarrow> cut_ext path;
                    (pat, view_name) \<leftarrow> page_route path;
                    a \<leftarrow> handle_page (l_ok L) (l_env L) pat view_name (HtmlViewer p) (s_app s);
                    Some (None, s\<lparr>s_html := put_template key p st1, s_app := a\<rparr>)
                  })
           })
     }"

text \<open>\<open>HtmlViewEngine.loadView\<close>\<close>

definition load_view :: "loader \<Rightarrow> fs_node \<Rightarrow> string \<Rightarrow> site \<Rightarrow> (gerr option \<times> site) option" where
  "load_view L fs path s =
     do {
       (r, s1) \<leftarrow> html_load_template L fs path s;
       (case r of
          Inl e \<Rightarrow> Some (Some e, s1)
        | Inr p \<Rightarrow>
            do {
              key \<leftarrow> cut_ext path;
              Some (None, s1\<lparr>s_app := (s_app s1)\<lparr>a_viewers := (a_viewers (s_app s1))(key := Some (HtmlViewer p))\<rparr>\<rparr>)
            })
     }"

text \<open>Loading a component or a layout: the error of \<open>loadTemplate\<close> only.\<close>

definition load_part :: "loader \<Rightarrow> fs_node \<Rightarrow> string \<Rightarrow> site \<Rightarrow> (gerr option \<times> site) option" where
  "load_part L fs path s =
     do {
       (r, s1) \<leftarrow> html_load_template L fs path s;
       Some (case r of Inl e \<Rightarrow> Some e | Inr p \<Rightarrow> None, s1)
     }"

definition is_html :: "string \<Rightarrow> bool" where
  "is_html path = equal_fold (path_ext path) ''.html''"

text \<open>\<open>loadFiles\<close>: the errors of the files are logged and the walk goes on.\<close>

definition load_files ::
  "(string \<Rightarrow> site \<Rightarrow> (gerr option \<times> site) option) \<Rightarrow> fs_node \<Rightarrow> string \<Rightarrow> site \<Rightarrow> site option" where
  "load_files process fs dir s =
     map_option snd (walk_dir (\<lambda>path d err s.
       if is_html path then map_option (\<lambda>(e, s1). (None, log_error e s1)) (process path s)
       else Some (None, s)) fs dir s)"

definition load_layouts :: "loader \<Rightarrow> fs_node \<Rightarrow> site \<Rightarrow> site option" where
  "load_layouts L fs s = load_files (load_part L fs) fs ''layouts'' s"

definition load_pages :: "loader \<Rightarrow> fs_node \<Rightarrow> site \<Rightarrow> site option" where
  "load_pages L fs s = load_files (load_page L fs) fs ''pages'' s"

definition load_views :: "loader \<Rightarrow> fs_node \<Rightarrow> site \<Rightarrow> site option" where
  "load_views L fs s = load_files (load_view L fs) fs ''views'' s"

definition load_components :: "loader \<Rightarrow> fs_node \<Rightarrow> site \<Rightarrow> site option" where
  "load_components L fs s = load_files (load_part L fs) fs ''components'' s"

definition html_engine_load :: "loader \<Rightarrow> fs_node \<Rightarrow> site \<Rightarrow> site option" where
  "html_engine_load L fs s =
     do {
       s1 \<leftarrow> load_components L fs s;
       s2 \<leftarrow> load_layouts L fs s1;
       s3 \<leftarrow> load_pages L fs s2;
       load_views L fs s3
     }"

lemmas html_load_defs = html_engine_load_def load_components_def load_layouts_def load_pages_def load_views_def

text \<open>
  \<open>FileChanged\<close> of the HTML engine. A reload that runs out of the fuel \<open>l_fuel\<close> is not a
  behaviour of the code; like a panic it has no result here.
\<close>

definition html_file_changed :: "loader \<Rightarrow> fs_node \<Rightarrow> event \<Rightarrow> site \<Rightarrow> (gerr option \<times> site) option" where
  "html_file_changed L fs ev s =
     (if event_has ev op_remove \<or> \<not> is_html (ev_name ev) then Some (None, s)
      else do {
        name \<leftarrow> cut_ext (ev_name ev);
        (if event_has ev op_write
         then (case hs_templates (s_html s) name of
                 None \<Rightarrow> Some (None, s)
               | Some p \<Rightarrow>
                   (case html_reload (l_fuel L) (l_rng L) (l_html L) fs p (s_html s) of
                      Returns (e, st) \<Rightarrow> Some (e, s\<lparr>s_html := st\<rparr>)
                    | Panics \<Rightarrow> None
                    | NoFuel \<Rightarrow> None))
         else if event_has ev op_create
         then (if has_prefix (ev_name ev) ''components/'' \<or> has_prefix (ev_name ev) ''layouts/''
               then load_part L fs (ev_name ev) s
               else if has_prefix (ev_name ev) ''pages/'' then load_page L fs (ev_name ev) s
               else if has_prefix (ev_name ev) ''views/'' then load_view L fs (ev_name ev) s
               else Some (None, s))
         else Some (None, s))
      })"

section \<open>The application\<close>

datatype engine = StaticEngine | HtmlEngine | TextEngine

definition engine_load :: "engine \<Rightarrow> loader \<Rightarrow> fs_node \<Rightarrow> site \<Rightarrow> site option" where
  "engine_load ve L fs s =
     (case ve of StaticEngine \<Rightarrow> static_engine_load L fs s
      | HtmlEngine \<Rightarrow> html_engine_load L fs s
      | TextEngine \<Rightarrow> text_engine_load L fs s)"

definition engine_file_changed :: "engine \<Rightarrow> loader \<Rightarrow> fs_node \<Rightarrow> event \<Rightarrow> site \<Rightarrow> (gerr option \<times> site) option" where
  "engine_file_changed ve L fs ev s =
     (case ve of StaticEngine \<Rightarrow> static_file_changed L fs ev s
      | HtmlEngine \<Rightarrow> html_file_changed L fs ev s
      | TextEngine \<Rightarrow> text_file_changed L fs ev s)"

fun load_engines :: "loader \<Rightarrow> fs_node \<Rightarrow> engine list \<Rightarrow> site \<Rightarrow> site option" where
  "load_engines L fs [] s = Some s"
| "load_engines L fs (ve # ves) s = Option.bind (engine_load ve L fs s) (load_engines L fs ves)"

text \<open>The body of the loop of \<open>enableHotReload\<close>: an event goes to every engine, errors are logged.\<close>

fun on_event :: "loader \<Rightarrow> fs_node \<Rightarrow> engine list \<Rightarrow> event \<Rightarrow> site \<Rightarrow> site option" where
  "on_event L fs [] ev s = Some s"
| "on_event L fs (ve # ves) ev s =
     do { (e, s1) \<leftarrow> engine_file_changed ve L fs ev s; on_event L fs ves ev (log_error e s1) }"

fun on_sends :: "loader \<Rightarrow> fs_node \<Rightarrow> engine list \<Rightarrow> wsend list \<Rightarrow> site \<Rightarrow> site option" where
  "on_sends L fs ves [] s = Some s"
| "on_sends L fs ves (SendEvent ev # xs) s = Option.bind (on_event L fs ves ev s) (on_sends L fs ves xs)"
| "on_sends L fs ves (SendError e # xs) s = on_sends L fs ves xs (log_error (Some e) s)"

text \<open>Hot reload over time: the batches of events of the watcher, each on the tree of its moment.\<close>

fun run_reloads :: "loader \<Rightarrow> engine list \<Rightarrow> (fs_node \<times> wsend list) list \<Rightarrow> site \<Rightarrow> site option" where
  "run_reloads L ves [] s = Some s"
| "run_reloads L ves ((fs, xs) # bs) s = Option.bind (on_sends L fs ves xs s) (run_reloads L ves bs)"

section \<open>Options and New\<close>

text \<open>
  Template functions by identity. \<open>New\<close> takes the package variable \<open>builtins\<close> itself as the
  function map of the application, so every application writes into the same map: it is
  part of the state that options and \<open>New\<close> pass along.
\<close>

datatype func = Builtin string | UserFunc nat | AssetOf nat

type_synonym func_map = "string \<Rightarrow> func option"

definition builtins_init :: func_map where
  "builtins_init = [''upper'' \<mapsto> Builtin ''upper'', ''lower'' \<mapsto> Builtin ''lower'', ''join'' \<mapsto> Builtin ''join'']"

definition join_strings :: "string \<Rightarrow> string list \<Rightarrow> string" where
  "join_strings sep a = go_join a sep"

record config =
  cf_mux :: "string list option"
  cf_watch :: bool
  cf_fsys :: "fs_node option"
  cf_handler_viewers :: "viewer list"
  cf_engines :: "engine list option"
  cf_interceptor :: "interceptor option"
  cf_compressors :: "compressor list"
  cf_funcs :: func_map
  cf_build :: "(string \<Rightarrow> bool) list"

type_synonym xun_option = "config \<Rightarrow> config"

definition with_mux :: "string list \<Rightarrow> xun_option" where
  "with_mux pats c = c\<lparr>cf_mux := Some pats\<rparr>"

definition with_watch :: xun_option where
  "with_watch c = c\<lparr>cf_watch := True\<rparr>"

definition with_fsys :: "fs_node \<Rightarrow> xun_option" where
  "with_fsys fs c = c\<lparr>cf_fsys := Some fs\<rparr>"

definition with_handler_viewers :: "viewer list \<Rightarrow> xun_option" where
  "with_handler_viewers vs c = c\<lparr>cf_handler_viewers := vs\<rparr>"

definition with_view_engines :: "engine list \<Rightarrow> xun_option" where
  "with_view_engines ves c = c\<lparr>cf_engines := (if ves = [] then None else Some ves)\<rparr>"

definition with_interceptor :: "interceptor \<Rightarrow> xun_option" where
  "with_interceptor i c = c\<lparr>cf_interceptor := Some i\<rparr>"

definition with_compressor :: "compressor list \<Rightarrow> xun_option" where
  "with_compressor cs c = c\<lparr>cf_compressors := cs\<rparr>"

definition with_template_func :: "string \<Rightarrow> func \<Rightarrow> xun_option" where
  "with_template_func name fn c = c\<lparr>cf_funcs := (cf_funcs c)(name := Some fn)\<rparr>"

definition with_template_func_map :: "func_map \<Rightarrow> xun_option" where
  "with_template_func_map fm c = c\<lparr>cf_funcs := cf_funcs c ++ fm\<rparr>"

definition with_build_asset_url :: "(string \<Rightarrow> bool) \<Rightarrow> xun_option" where
  "with_build_asset_url m c = c\<lparr>cf_build := cf_build c @ [m]\<rparr>"

definition default_engines :: "engine list" where
  "default_engines = [StaticEngine, HtmlEngine, TextEngine]"

definition empty_html_store :: html_store where
  "empty_html_store = \<lparr>hs_heap = Map.empty, hs_next = 0, hs_templates = Map.empty\<rparr>"

definition empty_text_store :: text_store where
  "empty_text_store = \<lparr>ts_heap = Map.empty, ts_next = 0, ts_templates = Map.empty\<rparr>"

text \<open>
  \<open>New\<close>: the options in order, the defaults, the loads, and the watcher when asked for. The
  arguments are the parameters of the engines, the identity of the application, the
  patterns of \<open>http.DefaultServeMux\<close> and the shared function map; \<open>None\<close> is a panic.
\<close>

definition apply_config :: "xun_option list \<Rightarrow> func_map \<Rightarrow> config" where
  "apply_config opts fm =
     foldl (\<lambda>c o'. o' c)
       \<lparr>cf_mux = None, cf_watch = False, cf_fsys = None, cf_handler_viewers = [JsonViewer], cf_engines = None,
        cf_interceptor = None, cf_compressors = [], cf_funcs = fm, cf_build = []\<rparr> opts"

definition configured :: "config \<Rightarrow> string list \<Rightarrow> site" where
  "configured c default_mux =
     \<lparr>s_app = (new_app (cf_handler_viewers c) (cf_compressors c))
        \<lparr>a_mux := map (\<lambda>p. (p, NativeHandler)) (case cf_mux c of None \<Rightarrow> default_mux | Some ps \<Rightarrow> ps)\<rparr>,
      s_html = empty_html_store, s_text = empty_text_store, s_log = []\<rparr>"

definition new_site ::
  "loader \<Rightarrow> nat \<Rightarrow> string list \<Rightarrow> xun_option list \<Rightarrow> func_map \<Rightarrow> (site \<times> watcher option \<times> func_map) option" where
  "new_site L app_id default_mux opts fm =
     (let c = apply_config opts fm;
          s = configured c default_mux;
          L' = L\<lparr>l_build := cf_build c, l_env := (l_env L)\<lparr>e_interceptor := cf_interceptor c\<rparr>\<rparr>;
          ves = (case cf_engines c of None \<Rightarrow> default_engines | Some ves \<Rightarrow> ves)
      in case cf_fsys c of
           None \<Rightarrow> Some (s, None, cf_funcs c)
         | Some fs \<Rightarrow>
             do {
               s1 \<leftarrow> load_engines L' fs ves s;
               (if cf_watch c
                then do {
                  (e, w) \<leftarrow> watcher_add fs ''.'' new_watcher;
                  Some (log_error e s1, if e = None then Some w else None, (cf_funcs c)(''asset'' := Some (AssetOf app_id)))
                }
                else Some (s1, None, (cf_funcs c)(''asset'' := Some (AssetOf app_id))))
             })"

section \<open>Invariants\<close>

text \<open>An invariant of the state that the callback keeps, a walk keeps.\<close>

lemma walk_dir_invariant:
  assumes "\<And>path d err s e s'. P s \<Longrightarrow> f path d err s = Some (e, s') \<Longrightarrow> P s'"
    and "P s" and "walk_dir f fs root s = Some (e, s')"
  shows "P s'"
proof -
  have "P s \<Longrightarrow> run_visits f vs s = Some (e, s') \<Longrightarrow> P s'" for vs s
  proof (induction vs arbitrary: s)
    case (Cons v vs)
    obtain p d er where v: "v = (p, d, er)" by (cases v)
    with Cons.prems obtain r s1 where "f p d er s = Some (r, s1)"
      "(if r \<noteq> None then Some (r, s1) else run_visits f vs s1) = Some (e, s')"
      by (auto simp: bind_eq_Some_conv)
    with assms(1) [OF Cons.prems(1)] Cons.IH [of s1] show ?case by (auto split: if_splits)
  qed simp
  with assms(2,3) show ?thesis by (simp add: walk_dir_run)
qed

lemma load_page_result:
  assumes "load_page L fs path s = Some (e, s')"
  shows "\<exists>er st1. (case er of
       Some er \<Rightarrow> Some (Some er, s\<lparr>s_html := st1\<rparr>)
     | None \<Rightarrow> do {
         key \<leftarrow> cut_ext path;
         (pat, view_name) \<leftarrow> page_route path;
         a \<leftarrow> handle_page (l_ok L) (l_env L) pat view_name (HtmlViewer (hs_next (s_html s))) (s_app s);
         Some (None, s\<lparr>s_html := put_template key (hs_next (s_html s)) st1, s_app := a\<rparr>)
       }) = Some (e, s')"
  using assms by (auto simp: load_page_def alloc_def bind_eq_Some_conv)

text \<open>
  The interface \<open>app_invariant\<close>: a property of the routing state that every operation the
  engines perform on it keeps. The engines then keep it whatever the files are, at start
  and on every event.
\<close>

locale app_invariant =
  fixes L :: loader and P :: "app \<Rightarrow> bool"
  assumes file_keeps: "P a \<Longrightarrow> handle_file (l_ok L) (l_env L) n v a = Some a' \<Longrightarrow> P a'"
    and asset_keeps: "P a \<Longrightarrow> handle_asset_url L fs path pat a = Some a' \<Longrightarrow> P a'"
    and page_keeps: "P a \<Longrightarrow> handle_page (l_ok L) (l_env L) pat n vw a = Some a' \<Longrightarrow> P a'"
    and viewers_keep: "P a \<Longrightarrow> P (a\<lparr>a_viewers := vs\<rparr>)"
begin

definition inv :: "site \<Rightarrow> bool" where
  "inv s \<longleftrightarrow> P (s_app s)"

lemma inv_log [simp]: "inv (log_error e s) = inv s"
  by (simp add: inv_def log_error_def split: option.splits)

lemma inv_stores [simp]: "inv (s\<lparr>s_html := st\<rparr>) = inv s" "inv (s\<lparr>s_text := ts\<rparr>) = inv s"
  by (simp_all add: inv_def)

lemma static_handle_keeps: "P a \<Longrightarrow> static_handle L fs path a = Some a' \<Longrightarrow> P a'"
  by (auto simp: static_handle_def Let_def bind_eq_Some_conv split: if_splits intro: file_keeps asset_keeps)

lemma text_load_template_keeps: "inv s \<Longrightarrow> inv (snd (text_load_template L fs path s))"
  by (auto simp: text_load_template_def Let_def split: prod.splits option.splits)

lemma load_text_keeps: "inv s \<Longrightarrow> inv (snd (load_text L fs path s))"
  using text_load_template_keeps [of s fs path]
  by (auto simp: load_text_def inv_def split: prod.splits sum.splits intro: viewers_keep)

lemma html_load_template_keeps:
  assumes "inv s" "html_load_template L fs path s = Some (r, s')"
  shows "inv s'"
proof -
  from assms(2) obtain name e st1 where "(case e of
       Some er \<Rightarrow> Some (Inl er, s\<lparr>s_html := st1\<rparr>)
     | None \<Rightarrow> Some (Inr (hs_next (s_html s)),
         s\<lparr>s_html := put_template name (hs_next (s_html s)) (relink name (hs_next (s_html s)) (obj_deps st1 (hs_next (s_html s))) st1)\<rparr>)) =
     Some (r, s')"
    by (auto simp: html_load_template_def alloc_def bind_eq_Some_conv)
  with assms(1) show ?thesis by (cases e) auto
qed

lemma load_part_keeps: "inv s \<Longrightarrow> load_part L fs path s = Some (e, s') \<Longrightarrow> inv s'"
  by (auto simp: load_part_def bind_eq_Some_conv intro: html_load_template_keeps)

lemma load_view_keeps:
  assumes "inv s" "load_view L fs path s = Some (e, s')"
  shows "inv s'"
proof -
  from assms(2) obtain r s1 where h: "html_load_template L fs path s = Some (r, s1)"
    by (auto simp: load_view_def bind_eq_Some_conv)
  from html_load_template_keeps [OF assms(1) h] assms(2) h show ?thesis
    by (cases r) (auto simp: load_view_def bind_eq_Some_conv inv_def intro: viewers_keep)
qed

lemma load_page_keeps:
  assumes "inv s" "load_page L fs path s = Some (e, s')"
  shows "inv s'"
proof -
  let ?p = "hs_next (s_html s)"
  from load_page_result [OF assms(2)] obtain er st1 where "(case er of
       Some er \<Rightarrow> Some (Some er, s\<lparr>s_html := st1\<rparr>)
     | None \<Rightarrow> do {
         key \<leftarrow> cut_ext path;
         (pat, view_name) \<leftarrow> page_route path;
         a \<leftarrow> handle_page (l_ok L) (l_env L) pat view_name (HtmlViewer ?p) (s_app s);
         Some (None, s\<lparr>s_html := put_template key ?p st1, s_app := a\<rparr>)
       }) = Some (e, s')"
    by blast
  with assms(1) show ?thesis
    by (cases er) (auto simp: bind_eq_Some_conv inv_def intro: page_keeps)
qed

lemma load_files_keeps:
  assumes "\<And>path s e s'. inv s \<Longrightarrow> process path s = Some (e, s') \<Longrightarrow> inv s'"
    and "inv s" "load_files process fs dir s = Some s'"
  shows "inv s'"
proof -
  let ?f = "\<lambda>path (d :: fs_node option) (err :: gerr option) s.
       if is_html path then map_option (\<lambda>(e, s1). (None :: gerr option, log_error e s1)) (process path s) else Some (None, s)"
  from assms(3) obtain e where "walk_dir ?f fs dir s = Some (e, s')"
    by (auto simp: load_files_def)
  then show ?thesis
    by (rule walk_dir_invariant [of inv ?f, rotated 2]) (auto split: if_splits dest: assms(1) simp: assms(2))
qed

lemma html_engine_load_keeps: "inv s \<Longrightarrow> html_engine_load L fs s = Some s' \<Longrightarrow> inv s'"
  by (auto simp: html_load_defs bind_eq_Some_conv
      dest!: load_files_keeps [rotated 2] intro: load_part_keeps load_page_keeps load_view_keeps)

lemma static_engine_load_keeps:
  assumes "inv s" "static_engine_load L fs s = Some s'"
  shows "inv s'"
proof -
  let ?f = "\<lambda>path d (err :: gerr option) s.
       if is_file d then map_option (\<lambda>a. (None :: gerr option, s\<lparr>s_app := a\<rparr>)) (static_handle L fs path (s_app s)) else Some (None, s)"
  from assms(2) obtain e where "walk_dir ?f fs ''public'' s = Some (e, s')"
    by (auto simp: static_engine_load_def)
  then show ?thesis
    by (rule walk_dir_invariant [of inv ?f, rotated 2])
      (use assms(1) in \<open>auto simp: inv_def split: if_splits dest: static_handle_keeps\<close>)
qed

lemma text_engine_load_keeps:
  assumes "inv s" "text_engine_load L fs s = Some s'"
  shows "inv s'"
proof -
  let ?f = "\<lambda>path d (err :: gerr option) s.
       if is_file d then (let (e, s1) = load_text L fs path s in Some (None :: gerr option, log_error e s1)) else Some (None, s)"
  from assms(2) obtain e where "walk_dir ?f fs ''text'' s = Some (e, s')"
    by (auto simp: text_engine_load_def)
  then show ?thesis
    by (rule walk_dir_invariant [of inv ?f, rotated 2])
      (use assms(1) in \<open>auto simp: split_beta Let_def split: if_splits intro: load_text_keeps\<close>)
qed

lemma load_engines_keeps: "inv s \<Longrightarrow> load_engines L fs ves s = Some s' \<Longrightarrow> inv s'"
  by (induction ves arbitrary: s)
    (auto simp: bind_eq_Some_conv engine_load_def split: engine.splits
      dest: static_engine_load_keeps html_engine_load_keeps text_engine_load_keeps)

lemma html_file_changed_keeps: "inv s \<Longrightarrow> html_file_changed L fs ev s = Some (e, s') \<Longrightarrow> inv s'"
  by (auto simp: html_file_changed_def bind_eq_Some_conv split: if_splits option.splits run.splits
      dest: load_part_keeps load_page_keeps load_view_keeps)

lemma text_file_changed_keeps: "inv s \<Longrightarrow> text_file_changed L fs ev s = Some (e, s') \<Longrightarrow> inv s'"
  using load_text_keeps [of s fs "ev_name ev"]
  by (auto simp: text_file_changed_def bind_eq_Some_conv split_beta Let_def split: if_splits option.splits)

lemma static_file_changed_keeps: "inv s \<Longrightarrow> static_file_changed L fs ev s = Some (e, s') \<Longrightarrow> inv s'"
  by (auto simp: static_file_changed_def inv_def split: if_splits dest: static_handle_keeps)

lemma engine_file_changed_keeps: "inv s \<Longrightarrow> engine_file_changed ve L fs ev s = Some (e, s') \<Longrightarrow> inv s'"
  by (cases ve) (auto simp: engine_file_changed_def
      intro: static_file_changed_keeps html_file_changed_keeps text_file_changed_keeps)

lemma on_event_keeps: "inv s \<Longrightarrow> on_event L fs ves ev s = Some s' \<Longrightarrow> inv s'"
proof (induction ves arbitrary: s)
  case (Cons ve ves)
  from Cons.prems(2) obtain e s1 where h: "engine_file_changed ve L fs ev s = Some (e, s1)"
    "on_event L fs ves ev (log_error e s1) = Some s'" by (auto simp: bind_eq_Some_conv)
  from engine_file_changed_keeps [OF Cons.prems(1) h(1)] show ?case by (intro Cons.IH [OF _ h(2)]) simp
qed simp

lemma on_send_keeps: "inv s \<Longrightarrow> on_sends L fs ves xs s = Some s' \<Longrightarrow> inv s'"
proof (induction xs arbitrary: s)
  case (Cons x xs)
  show ?case
  proof (cases x)
    case (SendEvent ev)
    with Cons.prems(2) obtain s1 where "on_event L fs ves ev s = Some s1" "on_sends L fs ves xs s1 = Some s'"
      by (auto simp: bind_eq_Some_conv)
    with on_event_keeps [OF Cons.prems(1)] Cons.IH show ?thesis by blast
  next
    case (SendError e)
    with Cons.prems Cons.IH [of "log_error (Some e) s"] show ?thesis by simp
  qed
qed simp

lemma run_reloads_keeps: "inv s \<Longrightarrow> run_reloads L ves bs s = Some s' \<Longrightarrow> inv s'"
proof (induction bs arbitrary: s)
  case (Cons b bs)
  then obtain s1 where "on_sends L (fst b) ves (snd b) s = Some s1" "run_reloads L ves bs s1 = Some s'"
    by (cases b) (auto simp: bind_eq_Some_conv)
  with on_send_keeps [OF Cons.prems(1)] Cons.IH show ?case by blast
qed simp

end

text \<open>The router's invariant is one.\<close>

lemma routing_invariant:
  assumes "refuses_duplicates (l_ok L)"
  shows "app_invariant L app_ok"
proof
  show "app_ok a'" if "app_ok a" "handle_file (l_ok L) (l_env L) n v a = Some a'" for a a' n v
    by (rule app_ok_handle_file [OF that(1) assms that(2)])
  show "app_ok a'" if "app_ok a" "handle_page (l_ok L) (l_env L) pat n vw a = Some a'" for a a' pat n vw
    by (rule app_ok_handle_page [OF that(1) assms that(2)])
  show "app_ok a'" if "app_ok a" "handle_asset_url L fs path pat a = Some a'" for a a' fs path pat
  proof -
    from that(2) obtain n v a1 us where h: "handle_file (l_ok L) (l_env L) n v a = Some a1"
      and a': "a' = a1\<lparr>a_asset_urls := us\<rparr>"
      by (auto simp: handle_asset_url_def Let_def bind_eq_Some_conv split: option.splits)
    show ?thesis by (rule app_ok_frame [OF app_ok_handle_file [OF that(1) assms h]]) (simp_all add: a')
  qed
  show "app_ok (a\<lparr>a_viewers := vs\<rparr>)" if "app_ok a" for a vs
    by (rule app_ok_frame [OF that]) simp_all
qed

text \<open>
  And so is this: every entry of \<open>AssetURLs\<close> is the address of a route. Routes are never
  removed.
\<close>

definition assets_ok :: "app \<Rightarrow> bool" where
  "assets_ok a \<longleftrightarrow> (\<forall>k u. a_asset_urls a k = Some u \<longrightarrow>
     (\<exists>n host path pat. u = ''/'' @ n \<and> split_file n = Some (host, path, pat) \<and> a_routes a pat \<noteq> None))"

lemma assets_ok_grow:
  assumes "assets_ok a" "a_asset_urls b = a_asset_urls a" "\<And>p. a_routes a p \<noteq> None \<Longrightarrow> a_routes b p \<noteq> None"
  shows "assets_ok b"
  unfolding assets_ok_def
proof (intro allI impI)
  fix k u
  assume "a_asset_urls b k = Some u"
  then have "a_asset_urls a k = Some u" by (simp add: assms(2))
  from assms(1) [unfolded assets_ok_def, rule_format, OF this]
  obtain n host path pat where "u = ''/'' @ n" "split_file n = Some (host, path, pat)" "a_routes a pat \<noteq> None"
    by blast
  with assms(3) [of pat]
  show "\<exists>n host path pat. u = ''/'' @ n \<and> split_file n = Some (host, path, pat) \<and> a_routes b pat \<noteq> None"
    by blast
qed

lemma mux_handle_frame:
  "mux_handle ok p k a = Some a' \<Longrightarrow> a_asset_urls a' = a_asset_urls a \<and> a_routes a' = a_routes a"
  by (auto simp: mux_handle_def split: if_splits)

lemma handle_file_routes:
  assumes "handle_file ok env n v a = Some a'"
  shows "a_asset_urls a' = a_asset_urls a \<and> (\<forall>p. a_routes a p \<noteq> None \<longrightarrow> a_routes a' p \<noteq> None) \<and>
    (\<exists>host path pat. split_file n = Some (host, path, pat) \<and> a_routes a' pat \<noteq> None)"
proof -
  from assms obtain host path pat where sf: "split_file n = Some (host, path, pat)"
    by (auto simp: handle_file_def bind_eq_Some_conv)
  show ?thesis
  proof (cases "a_routes a pat")
    case None
    with assms sf have "a_asset_urls a' = a_asset_urls a" "\<exists>r. a_routes a' = (a_routes a)(pat := Some r)"
      by (auto simp: handle_file_def Let_def dest!: mux_handle_frame)
    with sf show ?thesis by auto
  next
    case (Some r)
    with assms sf show ?thesis by (simp add: handle_file_def)
  qed
qed

lemma handle_page_routes:
  assumes "handle_page ok env pat n v a = Some a'"
  shows "a_asset_urls a' = a_asset_urls a \<and> (\<forall>p. a_routes a p \<noteq> None \<longrightarrow> a_routes a' p \<noteq> None) \<and> a_routes a' pat \<noteq> None"
  using assms by (auto simp: handle_page_def Let_def dest!: mux_handle_frame split: option.splits)

interpretation assets: app_invariant L assets_ok for L
proof
  show "assets_ok a'" if "assets_ok a" "handle_file (l_ok L) (l_env L) n v a = Some a'" for a a' n v
    using handle_file_routes [OF that(2)] by (intro assets_ok_grow [OF that(1)]) auto
  show "assets_ok a'" if "assets_ok a" "handle_page (l_ok L) (l_env L) pat n vw a = Some a'" for a a' pat n vw
    using handle_page_routes [OF that(2)] by (intro assets_ok_grow [OF that(1)]) auto
  show "assets_ok a'" if "assets_ok a" "handle_asset_url L fs path pat a = Some a'" for a a' fs path pat
  proof -
    from that(2) obtain n v a1 where h: "handle_file (l_ok L) (l_env L) n v a = Some a1"
      and a': "a' = a1\<lparr>a_asset_urls := (a_asset_urls a1)(''/'' @ pat := Some (''/'' @ n))\<rparr>"
      by (auto simp: handle_asset_url_def Let_def bind_eq_Some_conv split: option.splits)
    note r = handle_file_routes [OF h]
    then have "assets_ok a1" by (intro assets_ok_grow [OF that(1)]) auto
    with r show ?thesis unfolding assets_ok_def a' by auto
  qed
  show "assets_ok (a\<lparr>a_viewers := vs\<rparr>)" if "assets_ok a" for a vs
    by (rule assets_ok_grow [OF that]) simp_all
qed

section \<open>Static files have routes\<close>

lemma static_handle_routes:
  assumes "static_handle L fs path a = Some a'"
  shows "(\<forall>p. a_routes a p \<noteq> None \<longrightarrow> a_routes a' p \<noteq> None) \<and>
    (\<exists>host p pat. split_file (static_name path) = Some (host, p, pat) \<and> a_routes a' pat \<noteq> None)"
proof -
  from assms obtain v a1 where h: "handle_file (l_ok L) (l_env L) (static_name path) v a = Some a1"
    and r: "a' = a1 \<or> handle_asset_url L fs path (static_name path) a1 = Some a'"
    by (auto simp: static_handle_def Let_def bind_eq_Some_conv split: if_splits)
  have "a_routes a1 p \<noteq> None \<Longrightarrow> a_routes a' p \<noteq> None" for p
  proof -
    assume p: "a_routes a1 p \<noteq> None"
    from r show "a_routes a' p \<noteq> None"
    proof
      assume "handle_asset_url L fs path (static_name path) a1 = Some a'"
      then obtain n v2 a2 us where "handle_file (l_ok L) (l_env L) n v2 a1 = Some a2" "a' = a2\<lparr>a_asset_urls := us\<rparr>"
        by (auto simp: handle_asset_url_def Let_def bind_eq_Some_conv split: option.splits)
      with handle_file_routes [of "l_ok L" "l_env L" n v2 a1 a2] p show ?thesis by simp
    qed (use p in simp)
  qed
  with handle_file_routes [OF h] show ?thesis by blast
qed

lemma static_walk_routes:
  fixes L fs
  defines "f \<equiv> \<lambda>path d (err :: gerr option) s.
       if is_file d then map_option (\<lambda>a. (None :: gerr option, s\<lparr>s_app := a\<rparr>)) (static_handle L fs path (s_app s)) else Some (None, s)"
  shows "run_visits f vs s = Some (e, s') \<Longrightarrow>
    (\<forall>p. a_routes (s_app s) p \<noteq> None \<longrightarrow> a_routes (s_app s') p \<noteq> None) \<and>
    (\<forall>path d er. (path, d, er) \<in> set vs \<longrightarrow> is_file d \<longrightarrow>
       (\<exists>host p pat. split_file (static_name path) = Some (host, p, pat) \<and> a_routes (s_app s') pat \<noteq> None))"
proof (induction vs arbitrary: s)
  case (Cons v vs)
  obtain path d er where v: "v = (path, d, er)" by (cases v)
  show ?case
  proof (cases "is_file d")
    case True
    with Cons.prems v obtain a where a: "static_handle L fs path (s_app s) = Some a"
      "run_visits f vs (s\<lparr>s_app := a\<rparr>) = Some (e, s')"
      by (auto simp: f_def bind_eq_Some_conv)
    from Cons.IH [OF a(2)] static_handle_routes [OF a(1)] v show ?thesis by (auto) metis+
  next
    case False
    with Cons.prems v have "run_visits f vs s = Some (e, s')" by (simp add: f_def)
    from Cons.IH [OF this] False v show ?thesis by auto
  qed
qed simp

section \<open>Properties\<close>

lemma configured_ok:
  "distinct (case cf_mux c of None \<Rightarrow> dm | Some ps \<Rightarrow> ps) \<Longrightarrow> app_ok (s_app (configured c dm))"
  "assets_ok (s_app (configured c dm))"
  by (auto simp: app_ok_def assets_ok_def configured_def new_app_def comp_def)

lemma new_site_loads:
  assumes "new_site L i dm opts fm = Some (s, w, fm')"
  shows "\<exists>L' fs ves s0. l_ok L' = l_ok L \<and> load_engines L' fs ves (configured (apply_config opts fm) dm) = Some s0 \<and> s_app s = s_app s0"
proof (cases "cf_fsys (apply_config opts fm)")
  case None
  with assms show ?thesis
    by (intro exI [of _ L] exI [of _ "DirNode None []"] exI [of _ "[]"] exI [of _ s]) (auto simp: new_site_def Let_def)
next
  case (Some fs)
  have log: "s_app (log_error e s1) = s_app s1" for e s1 by (simp add: log_error_def split: option.splits)
  let ?c = "apply_config opts fm"
  let ?L = "L\<lparr>l_build := cf_build ?c, l_env := (l_env L)\<lparr>e_interceptor := cf_interceptor ?c\<rparr>\<rparr>"
  let ?ves = "case cf_engines ?c of None \<Rightarrow> default_engines | Some ves \<Rightarrow> ves"
  from assms Some obtain s1 where s1: "load_engines ?L fs ?ves (configured ?c dm) = Some s1" and
    "s_app s = s_app s1"
    by (auto simp: new_site_def Let_def bind_eq_Some_conv log split: if_splits)
  then show ?thesis by (intro exI [of _ ?L] exI [of _ fs] exI [of _ ?ves] exI [of _ s1]) simp
qed



text \<open>
  Every file under \<open>public\<close> is served. When the static engine has loaded a tree, each
  file it could walk to has a route under the pattern of its name.
\<close>

theorem static_files_served:
  assumes "wf_node fs" and "static_engine_load L fs s = Some s'"
    and "fs_lookup fs (''public/'' @ q) = Some (FileNode i c)"
  shows "\<exists>host p pat. split_file (static_name (''public/'' @ q)) = Some (host, p, pat) \<and>
    a_routes (s_app s') pat \<noteq> None"
proof -
  let ?f = "\<lambda>path d (err :: gerr option) s.
       if is_file d then map_option (\<lambda>a. (None :: gerr option, s\<lparr>s_app := a\<rparr>)) (static_handle L fs path (s_app s)) else Some (None, s)"
  from assms(2) obtain e where w: "run_visits ?f (visits fs ''public'') s = Some (e, s')"
    by (auto simp: static_engine_load_def walk_dir_run)
  have "name_ok ''public''" by (simp add: name_ok_def)
  from visits_below [OF assms(1) this, of q "FileNode i c"] assms(3)
  have "(''public/'' @ q, Some (FileNode i c), None) \<in> set (visits fs ''public'')" by simp
  moreover have "is_file (Some (FileNode i c))" by (simp add: is_file_def)
  ultimately show ?thesis using static_walk_routes [OF w] by blast
qed

text \<open>
  A page that is created again keeps serving its old template. The event makes a new
  template object under the page's key, which later writes reload; but the route has its
  handler already, so it goes on rendering the object of the first load, and only gains a
  viewer.
\<close>

theorem recreated_page_keeps_old_template:
  assumes "page_route path = Some (pat, view_name)" and "a_routes (s_app s) pat = Some r"
    and "has_prefix path ''pages/''" and "is_html path" and "cut_ext path = Some key"
    and "html_file_changed L fs \<lparr>ev_name = path, ev_op = op_create\<rparr> s = Some (None, s')"
  shows "hs_templates (s_html s') key = Some (hs_next (s_html s)) \<and>
    (\<exists>r'. a_routes (s_app s') pat = Some r' \<and> rt_handle r' = rt_handle r \<and>
       rt_viewers r' = rt_viewers r @ [HtmlViewer (hs_next (s_html s))]) \<and>
    a_viewers (s_app s') = a_viewers (s_app s)"
proof -
  let ?p = "hs_next (s_html s)"
  have np: "\<not> has_prefix path ''components/''" "\<not> has_prefix path ''layouts/''"
    using assms(3) by (cases path; auto)+
  have lp: "load_page L fs path s = Some (None, s')"
    using assms(3-6) np by (simp add: html_file_changed_def event_has_def)
  from load_page_result [OF lp] obtain er :: "gerr option" and st1 where "(case er of
       Some er \<Rightarrow> Some (Some er, s\<lparr>s_html := st1\<rparr>)
     | None \<Rightarrow> do {
         key \<leftarrow> cut_ext path;
         (pat, view_name) \<leftarrow> page_route path;
         a \<leftarrow> handle_page (l_ok L) (l_env L) pat view_name (HtmlViewer ?p) (s_app s);
         Some (None, s\<lparr>s_html := put_template key ?p st1, s_app := a\<rparr>)
       }) = Some (None, s')"
    by blast
  then obtain a where "handle_page (l_ok L) (l_env L) pat view_name (HtmlViewer ?p) (s_app s) = Some a"
    "s' = s\<lparr>s_html := put_template key ?p st1, s_app := a\<rparr>"
    using assms(1,5) by (cases er) (auto simp: bind_eq_Some_conv)
  with assms(2) show ?thesis by (auto simp: handle_page_def Let_def put_template_def)
qed

text \<open>
  A text template survives a broken edit. On a write event for a loaded text template
  the viewer's object gets the new template with the MIME type of the new content when it
  parses; when it does not, the error is returned and the template keeps working as it was.
\<close>

theorem text_write_reloads_or_keeps:
  assumes "ts_templates (s_text s) path = Some p" and "ts_heap (s_text s) p = Some t"
    and "tt_name t = path" and "fs_read fs path = Inr buf" and "buf \<noteq> []"
  shows "\<exists>e s'. text_file_changed L fs \<lparr>ev_name = path, ev_op = op_write\<rparr> s = Some (e, s') \<and>
    (case l_text L path buf of
       Inr nt \<Rightarrow> e = None \<and> (\<exists>t'. ts_heap (s_text s') p = Some t' \<and>
         text_execute exec t' data = Some (exec nt path data) \<and>
         (tt_mime t', tt_charset t') = get_mime_type (l_by_ext L) (l_detect L) path buf)
     | Inl er \<Rightarrow> e = Some er \<and> ts_heap (s_text s') = ts_heap (s_text s))"
  using assms
  by (cases "l_text L path buf"; cases "get_mime_type (l_by_ext L) (l_detect L) path buf")
    (auto simp: text_file_changed_def event_has_def text_reload_def text_load_def text_execute_def)

section \<open>Witnesses\<close>

text \<open>A mux that compares patterns, one text file, one page, one script that gets a fingerprint.\<close>

definition demo_loader :: loader where
  "demo_loader = \<lparr>l_ok = demo_check, l_env = demo_env, l_html = demo_parse, l_rng = (\<lambda>m. []), l_fuel = 10,
     l_text = demo_parse, l_by_ext = (\<lambda>e. if e = ''.txt'' then ''text/plain; charset=utf-8'' else []),
     l_detect = (\<lambda>b. ''application/octet-stream''), l_embed = False, l_build = []\<rparr>"

definition demo_root :: fs_node where
  "demo_root = DirNode None
     [(''pages'', DirNode None [(''about.html'', FileNode (Inr 1) (Inr ''hi''))]),
      (''public'', DirNode None [(''js'', DirNode None [(''app.js'', FileNode (Inr 1) (Inr ''x''))])]),
      (''text'', DirNode None [(''robots.txt'', FileNode (Inr 1) (Inr ''ok''))])]"

definition demo_site :: site where
  "demo_site = configured (apply_config [with_mux []] builtins_init) []"

text \<open>What the parts of the tree evaluate to.\<close>

lemma demo_names:
  "static_name ''public/js/app.js'' = ''js/app.js''"
  "split_file ''js/app.js'' = Some ([], ''/js/app.js'', ''GET /js/app.js'')"
  "page_route ''pages/about.html'' = Some (''GET /about'', ''about'')"
  "cut_ext ''pages/about.html'' = Some ''pages/about''"
  "go_slice ''pages/about.html'' 6 16 = Some ''about.html''"
  "is_html ''pages/about.html''" "layout_comment ''hi'' = None"
  by code_simp+

lemma demo_static:
  "\<exists>s'. static_engine_load demo_loader demo_root demo_site = Some s'"
  by (simp add: static_engine_load_def walk_dir_def demo_root_def fs_lookup_def path_parts_def is_file_def path_join_def
      static_handle_def Let_def handle_file_def demo_names mux_handle_def demo_site_def demo_loader_def demo_check_def
      configured_def new_app_def apply_config_def with_mux_def)

theorem static_files_served_witness:
  "\<exists>s'. static_engine_load demo_loader demo_root demo_site = Some s' \<and> a_routes (s_app s') ''GET /js/app.js'' \<noteq> None"
proof -
  obtain s' where s': "static_engine_load demo_loader demo_root demo_site = Some s'" using demo_static by blast
  have "wf_node demo_root" by (simp add: demo_root_def name_ok_def)
  moreover have "fs_lookup demo_root (''public/'' @ ''js/app.js'') = Some (FileNode (Inr 1) (Inr ''x''))"
    by (simp add: fs_lookup_def path_parts_def demo_root_def)
  ultimately show ?thesis using static_files_served [OF _ s', of "''js/app.js''"] s' by (simp add: demo_names)
qed

text \<open>An application with only the static engine, and one with only the pages.\<close>

definition demo_options :: "xun_option list" where
  "demo_options = [with_mux [], with_view_engines [StaticEngine], with_fsys demo_root,
     with_build_asset_url (\<lambda>u. has_suffix u ''.js'')]"

lemma demo_config:
  "cf_mux (apply_config demo_options fm) = Some []" "cf_engines (apply_config demo_options fm) = Some [StaticEngine]"
  "cf_fsys (apply_config demo_options fm) = Some demo_root" "\<not> cf_watch (apply_config demo_options fm)"
  "cf_build (apply_config demo_options fm) = [\<lambda>u. has_suffix u ''.js'']"
  "cf_handler_viewers (apply_config demo_options fm) = [JsonViewer]" "cf_compressors (apply_config demo_options fm) = []"
  by (simp_all add: apply_config_def demo_options_def with_mux_def with_view_engines_def with_fsys_def with_build_asset_url_def)

lemma hex_digit_plain: "n < 16 \<Longrightarrow> hex_digit n \<noteq> CHR ''@''"
proof
  assume "n < 16" "hex_digit n = CHR ''@''"
  then have "byte_of (hex_digit n) = 64" by (simp add: byte_of_def)
  with \<open>n < 16\<close> show False by (auto simp: hex_digit_def byte_of_def split: if_splits)
qed

lemma compute_etag_plain: "CHR ''@'' \<notin> set (compute_etag (Some c))"
proof -
  have "hex_digit (byte_of x div 16) \<noteq> CHR ''@''" "hex_digit (byte_of x mod 16) \<noteq> CHR ''@''" for x
    by (rule hex_digit_plain; use byte_of_less_256 [of x] in simp)+
  then show ?thesis by (auto simp: compute_etag_def compute_etag_with_def hex_encode_def dest!: sym [of "CHR ''@''"])
qed

lemma set_trim_by: "set (trim_by p s) \<subseteq> set s"
  by (auto simp: trim_by_def trim_right_def dest!: set_dropWhileD)

definition demo_url :: string where
  "demo_url = asset_name ''js/app.js'' (compute_etag (Some ''x''))"

lemma demo_asset:
  "split_file demo_url = Some ([], ''/'' @ demo_url, ''GET /'' @ demo_url)"
  "demo_url \<noteq> ''js/app.js''" "has_suffix ''/js/app.js'' ''.js''"
proof -
  have e: "path_ext ''js/app.js'' = ''.js''" by code_simp
  have u: "demo_url = ''js/app'' @ ''-'' @ trim_by (\<lambda>c. c = DQUOTE) (compute_etag (Some ''x'')) @ ''.js''"
    by (simp add: demo_url_def asset_name_def e trim_right_def)
  then have "CHR ''@'' \<notin> set demo_url" using compute_etag_plain [of "''x''"] subsetD [OF set_trim_by, of "CHR ''@''"] by (auto simp: u)
  moreover have "last demo_url = CHR ''s''" "demo_url \<noteq> []" by (simp_all add: u)
  ultimately show "split_file demo_url = Some ([], ''/'' @ demo_url, ''GET /'' @ demo_url)"
    by (simp add: split_file_no_host)
  show "demo_url \<noteq> ''js/app.js''" by (simp add: u)
qed code_simp

lemma demo_new_site:
  "\<exists>s fm'. new_site demo_loader 1 [] demo_options builtins_init = Some (s, None, fm') \<and>
     a_asset_urls (s_app s) ''/js/app.js'' = Some (''/'' @ demo_url)"
  by (simp add: new_site_def Let_def demo_config engine_load_def static_engine_load_def walk_dir_def demo_root_def
      fs_lookup_def path_parts_def is_file_def path_join_def static_handle_def handle_asset_url_def open_content_def handle_file_def
      demo_names demo_asset demo_url_def [symmetric] mux_handle_def demo_loader_def demo_check_def configured_def new_app_def)



lemma demo_page_event:
  "load_page demo_loader demo_root ''pages/about.html'' demo_site = Some (None, s1) \<Longrightarrow>
     a_routes (s_app s1) ''GET /about'' \<noteq> None \<and>
     (\<exists>s2. html_file_changed demo_loader demo_root \<lparr>ev_name = ''pages/about.html'', ev_op = op_create\<rparr> s1 = Some (None, s2))"
  by (auto simp: load_page_def demo_names alloc_def html_load_def new_html_template_def fs_read_def fs_lookup_def path_parts_def
      demo_root_def demo_loader_def demo_parse_def load_parsed_def own_deps_def set_loaded_def handle_page_def Let_def mux_handle_def
      demo_check_def html_file_changed_def event_has_def demo_site_def configured_def new_app_def put_template_def update_obj_def
      apply_config_def with_mux_def empty_html_store_def split: if_splits)

theorem recreated_page_keeps_old_template_witness:
  "\<exists>s1 s2 r1 r2. load_page demo_loader demo_root ''pages/about.html'' demo_site = Some (None, s1) \<and>
     html_file_changed demo_loader demo_root \<lparr>ev_name = ''pages/about.html'', ev_op = op_create\<rparr> s1 = Some (None, s2) \<and>
     a_routes (s_app s1) ''GET /about'' = Some r1 \<and> a_routes (s_app s2) ''GET /about'' = Some r2 \<and> rt_handle r2 = rt_handle r1"
proof -
  obtain s1 where s1: "load_page demo_loader demo_root ''pages/about.html'' demo_site = Some (None, s1)"
    by (simp add: load_page_def demo_names alloc_def html_load_def new_html_template_def fs_read_def fs_lookup_def path_parts_def
      demo_root_def demo_loader_def demo_parse_def load_parsed_def own_deps_def set_loaded_def handle_page_def Let_def mux_handle_def
      demo_check_def demo_site_def configured_def new_app_def put_template_def update_obj_def apply_config_def with_mux_def
      empty_html_store_def)
  from demo_page_event [OF s1] obtain r1 s2 where r1: "a_routes (s_app s1) ''GET /about'' = Some r1"
    and s2: "html_file_changed demo_loader demo_root \<lparr>ev_name = ''pages/about.html'', ev_op = op_create\<rparr> s1 = Some (None, s2)"
    by auto
  have "has_prefix ''pages/about.html'' ''pages/''" by simp
  from recreated_page_keeps_old_template [OF demo_names(3) r1 this demo_names(6,4) s2] s1 s2 r1 show ?thesis by blast
qed

theorem text_write_reloads_or_keeps_witness:
  "\<exists>s1 e s2. load_text demo_loader demo_root ''text/robots.txt'' demo_site = (None, s1) \<and>
     text_file_changed demo_loader (DirNode None [(''text'', DirNode None [(''robots.txt'', FileNode (Inr 2) (Inr ''!''))])])
       \<lparr>ev_name = ''text/robots.txt'', ev_op = op_write\<rparr> s1 = Some (e, s2) \<and>
     e = Some (ErrMsg ''syntax'') \<and> ts_heap (s_text s2) = ts_heap (s_text s1)"
proof -
  let ?fs = "DirNode None [(''text'', DirNode None [(''robots.txt'', FileNode (Inr 2) (Inr ''!''))])]"
  obtain m cs where "get_mime_type (l_by_ext demo_loader) (l_detect demo_loader) ''text/robots.txt'' ''ok'' = (m, cs)" by force
  then obtain s1 t where s1: "load_text demo_loader demo_root ''text/robots.txt'' demo_site = (None, s1)"
    and t: "ts_templates (s_text s1) ''text/robots.txt'' = Some 0" "ts_heap (s_text s1) 0 = Some t" "tt_name t = ''text/robots.txt''"
    by (auto simp: load_text_def text_load_template_def text_load_def fs_read_def fs_lookup_def path_parts_def demo_root_def
        demo_loader_def demo_parse_def demo_site_def configured_def empty_text_store_def Let_def)
  have f: "fs_read ?fs ''text/robots.txt'' = Inr ''!''" "''!'' \<noteq> []"
    by (simp_all add: fs_read_def fs_lookup_def path_parts_def)
  have "l_text demo_loader ''text/robots.txt'' ''!'' = Inl (ErrMsg ''syntax'')" by (simp add: demo_loader_def demo_parse_def)
  with text_write_reloads_or_keeps [OF t f, of demo_loader "\<lambda>ts n d. Inr n" "()"] s1 show ?thesis by auto
qed

end
