(* ===== verification/ProxyProto.thy ===== *)
theory ProxyProto
  imports Prelude
begin

unbundle bit_operations_syntax

text \<open>
  The PROXY protocol, \<open>ext/proxyproto\<close>: the headers of version 1 and 2 (\<open>header.go\<close>,
  \<open>helper.go\<close>) and the connection that reads one on first use (\<open>conn.go\<close>, \<open>listener.go\<close>).

  What the peer sends until it closes is a byte string, and a reader is what is left of it.
  \<open>bufio.Reader\<close> has its default buffer of 4096 bytes, which bounds \<open>Peek\<close>; running out of
  input is an error. \<open>net.ResolveTCPAddr\<close> is the parameter \<open>resolve\<close>.
\<close>

section \<open>Addresses, commands, protocols\<close>

datatype net_addr = TcpAddr string nat | UdpAddr string nat

type_synonym protocol = "8 word"
type_synonym command = "8 word"

definition cmd_local :: command where "cmd_local = 0x20"
definition cmd_proxy :: command where "cmd_proxy = 0x21"

definition supported_command :: "command \<Rightarrow> bool" where
  "supported_command c \<longleftrightarrow> c = cmd_local \<or> c = cmd_proxy"

definition tcp_v4 :: protocol where "tcp_v4 = 0x11"
definition udp_v4 :: protocol where "udp_v4 = 0x12"
definition tcp_v6 :: protocol where "tcp_v6 = 0x21"
definition udp_v6 :: protocol where "udp_v6 = 0x22"

definition is_ipv4 :: "protocol \<Rightarrow> bool" where "is_ipv4 ap \<longleftrightarrow> ap AND 0xF0 = 0x10"
definition is_ipv6 :: "protocol \<Rightarrow> bool" where "is_ipv6 ap \<longleftrightarrow> ap AND 0xF0 = 0x20"
definition is_unix :: "protocol \<Rightarrow> bool" where "is_unix ap \<longleftrightarrow> ap AND 0xF0 = 0x30"
definition is_stream :: "protocol \<Rightarrow> bool" where "is_stream ap \<longleftrightarrow> ap AND 0x0F = 0x01"
definition is_datagram :: "protocol \<Rightarrow> bool" where "is_datagram ap \<longleftrightarrow> ap AND 0x0F = 0x02"
definition is_unspec :: "protocol \<Rightarrow> bool" where
  "is_unspec ap \<longleftrightarrow> ap AND 0xF0 = 0x00 \<or> ap AND 0x0F = 0x00"

text \<open>\<open>toAddr\<close>: a transport that is neither gives a nil address.\<close>

definition to_addr :: "protocol \<Rightarrow> string \<Rightarrow> 16 word \<Rightarrow> net_addr option" where
  "to_addr transport ip port =
     (if is_stream transport then Some (TcpAddr ip (unat port))
      else if is_datagram transport then Some (UdpAddr ip (unat port))
      else None)"

record header_info =
  h_local :: "net_addr option"
  h_remote :: "net_addr option"
  h_version :: nat
  h_command :: command
  h_protocol :: protocol
  h_tlvs :: string

definition validate_length :: "protocol \<Rightarrow> 16 word \<Rightarrow> bool" where
  "validate_length p len =
     (if is_ipv4 p then 12 \<le> len
      else if is_ipv6 p then 36 \<le> len
      else if is_unix p then 216 \<le> len
      else if is_unspec p then 0 \<le> len
      else False)"

section \<open>Reading\<close>

definition bufio_size :: nat where "bufio_size = 4096"

text \<open>\<open>Peek\<close>: the bytes, without taking them.\<close>

definition peek :: "nat \<Rightarrow> string \<Rightarrow> string option" where
  "peek n s = (if n \<le> bufio_size \<and> n \<le> length s then Some (take n s) else None)"

text \<open>\<open>ReadString\<close> of a line feed: the line, or an error with everything taken.\<close>

definition read_line :: "string \<Rightarrow> string option \<times> string" where
  "read_line s =
     (case index_byte s LF of
        None \<Rightarrow> (None, [])
      | Some i \<Rightarrow> (Some (take (Suc i) s), drop (Suc i) s))"

text \<open>Reading exactly \<open>n\<close> bytes, or an error with everything taken.\<close>

definition read_full :: "nat \<Rightarrow> string \<Rightarrow> string option \<times> string" where
  "read_full n s = (if n \<le> length s then Some (take n s) else None, drop n s)"

definition byte_word :: "char \<Rightarrow> 8 word" where
  "byte_word c = word_of_nat (byte_of c)"

definition be16 :: "char \<Rightarrow> char \<Rightarrow> 16 word" where
  "be16 a b = word_of_nat (256 * byte_of a + byte_of b)"

type_synonym resolver = "string \<Rightarrow> string \<Rightarrow> gerr + net_addr"

definition sig_v1 :: string where "sig_v1 = ''PROXY ''"
definition sig_v2 :: string where
  "sig_v2 = [CR, LF, CR, LF, CHR 0x00, CR, LF, CHR ''Q'', CHR ''U'', CHR ''I'', CHR ''T'', LF]"

definition v1_header :: "net_addr \<Rightarrow> net_addr \<Rightarrow> header_info" where
  "v1_header remote loc =
     \<lparr>h_local = Some loc, h_remote = Some remote, h_version = 1, h_command = 0, h_protocol = 0, h_tlvs = []\<rparr>"

text \<open>\<open>readV1Header\<close>: the header, if the line is one, and what is left.\<close>

definition v1_addrs :: "resolver \<Rightarrow> string \<Rightarrow> string \<Rightarrow> string \<Rightarrow> header_info option" where
  "v1_addrs resolve net remote loc =
     (case resolve net remote of
        Inl e \<Rightarrow> None
      | Inr r \<Rightarrow> (case resolve net loc of Inl e \<Rightarrow> None | Inr l \<Rightarrow> Some (v1_header r l)))"

definition read_v1_header :: "resolver \<Rightarrow> string \<Rightarrow> header_info option \<times> string" where
  "read_v1_header resolve s =
     (case read_line s of
        (None, rest) \<Rightarrow> (None, rest)
      | (Some line, rest) \<Rightarrow>
          let fields = go_fields line
          in if length fields < 6 then (None, rest)
             else if fields ! 1 = ''TCP4''
             then (v1_addrs resolve ''tcp4'' (fields ! 2 @ '':'' @ fields ! 4) (fields ! 3 @ '':'' @ fields ! 5), rest)
             else if fields ! 1 = ''TCP6''
             then (v1_addrs resolve ''tcp6'' (''['' @ fields ! 2 @ '']:'' @ fields ! 4)
                     (''['' @ fields ! 3 @ '']:'' @ fields ! 5), rest)
             else (None, rest))"

text \<open>
  The address block of \<open>readV2Header\<close> for addresses of \<open>k\<close> bytes, \<open>binary.Read\<close> of
  \<open>tcp4Addr\<close> or \<open>tcp6Addr\<close> from the payload: remote and local address, the two ports.
\<close>

definition v2_addrs :: "nat \<Rightarrow> command \<Rightarrow> protocol \<Rightarrow> string \<Rightarrow> header_info" where
  "v2_addrs k cmd proto payload =
     (let a = drop (2 * k) payload
      in \<lparr>h_local = to_addr proto (take k (drop k payload)) (be16 (a ! 2) (a ! 3)),
          h_remote = to_addr proto (take k payload) (be16 (a ! 0) (a ! 1)),
          h_version = 2, h_command = cmd, h_protocol = proto, h_tlvs = drop 4 a\<rparr>)"

text \<open>
  \<open>readV2Header\<close> from the validation of the length on. The payload has been peeked, so
  reading the addresses and the TLVs from it cannot fail.
\<close>

definition read_v2_body :: "command \<Rightarrow> protocol \<Rightarrow> 16 word \<Rightarrow> string \<Rightarrow> header_info option \<times> string" where
  "read_v2_body cmd proto len s =
     (if \<not> validate_length proto len then (None, s)
      else if len = 0 then (None, s)
      else (case peek (unat len) s of
              None \<Rightarrow> (None, s)
            | Some payload \<Rightarrow>
                if is_ipv4 proto then (Some (v2_addrs 4 cmd proto payload), drop (unat len) s)
                else if is_ipv6 proto then (Some (v2_addrs 16 cmd proto payload), drop (unat len) s)
                else (None, s)))"

text \<open>The bytes before: the signature, the command, the protocol, the length.\<close>

definition read_v2_header :: "string \<Rightarrow> header_info option \<times> string" where
  "read_v2_header s =
     (case read_full 12 s of
        (None, rest) \<Rightarrow> (None, rest)
      | (Some sig, []) \<Rightarrow> (None, [])
      | (Some sig, b13 # s2) \<Rightarrow>
          if \<not> supported_command (byte_word b13) then (None, s2)
          else (case s2 of
                  b14 # l1 # l2 # s4 \<Rightarrow> read_v2_body (byte_word b13) (byte_word b14) (be16 l1 l2) s4
                | _ \<Rightarrow> (None, [])))"

section \<open>The connection\<close>

record pconn =
  pc_rest :: string
  pc_header :: "header_info option"
  pc_loaded :: bool
  pc_local :: "net_addr option"
  pc_remote :: "net_addr option"

definition new_conn :: "net_addr option \<Rightarrow> net_addr option \<Rightarrow> string \<Rightarrow> pconn" where
  "new_conn loc remote s =
     \<lparr>pc_rest = s, pc_header = None, pc_loaded = False, pc_local = loc, pc_remote = remote\<rparr>"

text \<open>\<open>listener.Accept\<close>: the error of the listener, or the wrapped connection.\<close>

definition accept :: "gerr + (net_addr option \<times> net_addr option \<times> string) \<Rightarrow> gerr + pconn" where
  "accept r = (case r of Inl e \<Rightarrow> Inl e | Inr (l, rm, s) \<Rightarrow> Inr (new_conn l rm s))"

definition try_use_proxy :: "resolver \<Rightarrow> pconn \<Rightarrow> pconn" where
  "try_use_proxy resolve c =
     (case peek 13 (pc_rest c) of
        None \<Rightarrow> c\<lparr>pc_loaded := True\<rparr>
      | Some buf \<Rightarrow>
          if has_prefix buf sig_v1
          then (let (h, rest) = read_v1_header resolve (pc_rest c)
                in c\<lparr>pc_header := h, pc_rest := rest, pc_loaded := True\<rparr>)
          else if has_prefix buf sig_v2
          then (let (h, rest) = read_v2_header (pc_rest c)
                in c\<lparr>pc_header := h, pc_rest := rest, pc_loaded := True\<rparr>)
          else c\<lparr>pc_loaded := True\<rparr>)"

definition load_once :: "resolver \<Rightarrow> pconn \<Rightarrow> pconn" where
  "load_once resolve c = (if pc_loaded c then c else try_use_proxy resolve c)"

text \<open>\<open>Read\<close>: \<open>n\<close> is the number of bytes the buffered reader hands out, at most what is left.\<close>

definition conn_read :: "resolver \<Rightarrow> nat \<Rightarrow> pconn \<Rightarrow> string \<times> pconn" where
  "conn_read resolve n c =
     (let c1 = load_once resolve c
      in (take n (pc_rest c1), c1\<lparr>pc_rest := drop n (pc_rest c1)\<rparr>))"

definition conn_local_addr :: "resolver \<Rightarrow> pconn \<Rightarrow> net_addr option \<times> pconn" where
  "conn_local_addr resolve c =
     (let c1 = load_once resolve c
      in (case pc_header c1 of Some h \<Rightarrow> h_local h | None \<Rightarrow> pc_local c1, c1))"

definition conn_remote_addr :: "resolver \<Rightarrow> pconn \<Rightarrow> net_addr option \<times> pconn" where
  "conn_remote_addr resolve c =
     (let c1 = load_once resolve c
      in (case pc_header c1 of Some h \<Rightarrow> h_remote h | None \<Rightarrow> pc_remote c1, c1))"

datatype conn_op = OpRead nat | OpLocalAddr | OpRemoteAddr

text \<open>A run of operations: the bytes read in all, and the connection.\<close>

fun conn_run :: "resolver \<Rightarrow> conn_op list \<Rightarrow> pconn \<Rightarrow> string \<times> pconn" where
  "conn_run resolve [] c = ([], c)"
| "conn_run resolve (OpRead n # ops) c =
     (let (b, c1) = conn_read resolve n c; (bs, c2) = conn_run resolve ops c1 in (b @ bs, c2))"
| "conn_run resolve (OpLocalAddr # ops) c = conn_run resolve ops (snd (conn_local_addr resolve c))"
| "conn_run resolve (OpRemoteAddr # ops) c = conn_run resolve ops (snd (conn_remote_addr resolve c))"

section \<open>Writing version 2, the reference encoder\<close>

definition word_byte :: "8 word \<Rightarrow> char" where
  "word_byte w = char_of (unat w)"

definition be16_bytes :: "16 word \<Rightarrow> string" where
  "be16_bytes w = [char_of (unat w div 256), char_of (unat w mod 256)]"

definition v2_payload :: "string \<Rightarrow> string \<Rightarrow> 16 word \<Rightarrow> 16 word \<Rightarrow> string \<Rightarrow> string" where
  "v2_payload rip lip rport lport tlvs = rip @ lip @ be16_bytes rport @ be16_bytes lport @ tlvs"

definition v2_encode :: "command \<Rightarrow> protocol \<Rightarrow> string \<Rightarrow> string" where
  "v2_encode cmd proto payload =
     sig_v2 @ [word_byte cmd, word_byte proto] @ be16_bytes (word_of_nat (length payload)) @ payload"

lemma byte_word_byte [simp]: "byte_word (word_byte w) = w"
proof -
  have "unat w < 256" using unsigned_less [of w, where 'a = nat] by simp
  then show ?thesis by (simp add: byte_word_def word_byte_def byte_of_def)
qed

lemma be16_bytes_read [simp]: "be16 (char_of (unat w div 256)) (char_of (unat w)) = w"
proof -
  have "unat w < 65536" using unsigned_less [of w, where 'a = nat] by simp
  then have "unat w div 256 < 256" by simp
  then have "256 * byte_of (char_of (unat w div 256)) + byte_of (char_of (unat w)) = unat w"
    by (simp add: byte_of_def)
  then show ?thesis unfolding be16_def by simp
qed

lemma unat_be16: "unat (be16 a b) = 256 * byte_of a + byte_of b"
proof -
  have "256 * byte_of a + byte_of b < 2 ^ 16" using byte_of_less_256 [of a] byte_of_less_256 [of b] by simp
  then show ?thesis unfolding be16_def by (simp only: unat_of_nat len_of_numeral_defs) simp
qed

lemma length_sig_v2 [simp]: "length sig_v2 = 12"
  by (simp add: sig_v2_def)

lemma length_be16_bytes [simp]: "length (be16_bytes w) = 2"
  by (simp add: be16_bytes_def)

lemma v2_addrs_payload:
  assumes "length rip = k" "length lip = k"
  shows "v2_addrs k cmd proto (v2_payload rip lip rport lport tlvs) =
    \<lparr>h_local = to_addr proto lip lport, h_remote = to_addr proto rip rport, h_version = 2,
     h_command = cmd, h_protocol = proto, h_tlvs = tlvs\<rparr>"
  using assms by (simp add: v2_addrs_def v2_payload_def be16_bytes_def Let_def)

lemma unat_length_payload: "n < 65536 \<Longrightarrow> unat (word_of_nat n :: 16 word) = n"
  by (simp add: unat_of_nat take_bit_eq_mod)

lemma read_v2_encoded:
  assumes "supported_command cmd" "validate_length proto (word_of_nat (length payload))"
    and "0 < length payload" "length payload \<le> 4096"
  shows "read_v2_header (v2_encode cmd proto payload @ rest) =
    (if is_ipv4 proto then (Some (v2_addrs 4 cmd proto payload), rest)
     else if is_ipv6 proto then (Some (v2_addrs 16 cmd proto payload), rest)
     else (None, payload @ rest))"
proof -
  have u: "unat (word_of_nat (length payload) :: 16 word) = length payload"
    using assms(4) by (simp add: unat_length_payload)
  then have "(word_of_nat (length payload) :: 16 word) \<noteq> 0" using assms(3) by (metis less_irrefl unat_0)
  moreover have "read_full 12 (v2_encode cmd proto payload @ rest) =
      (Some sig_v2, [word_byte cmd, word_byte proto] @ be16_bytes (word_of_nat (length payload)) @ payload @ rest)"
    by (simp add: read_full_def v2_encode_def)
  moreover have "peek (length payload) (payload @ rest) = Some payload"
    using assms(4) by (simp add: peek_def bufio_size_def)
  moreover have "be16 (char_of (length payload div 256)) (char_of (length payload)) = word_of_nat (length payload)"
    using be16_bytes_read [of "word_of_nat (length payload)"] u by simp
  ultimately show ?thesis
    using assms(1,2) u by (simp add: read_v2_header_def read_v2_body_def be16_bytes_def)
qed

lemma peek_encoded:
  "peek 13 (v2_encode cmd proto payload @ rest) = Some (sig_v2 @ [word_byte cmd])"
  by (simp add: peek_def bufio_size_def v2_encode_def)

lemma sig_not_v1: "\<not> has_prefix (sig_v2 @ t) sig_v1"
  by (simp add: sig_v1_def sig_v2_def)

lemma try_encoded:
  "try_use_proxy resolve (new_conn loc rm (v2_encode cmd proto payload @ rest)) =
     (let (h, r) = read_v2_header (v2_encode cmd proto payload @ rest)
      in (new_conn loc rm [])\<lparr>pc_header := h, pc_rest := r, pc_loaded := True\<rparr>)"
  by (simp add: try_use_proxy_def new_conn_def peek_encoded sig_not_v1 split_beta)

section \<open>What a version 2 header takes from the stream\<close>

lemma validate_v4: "is_ipv4 p \<Longrightarrow> validate_length p len \<Longrightarrow> 12 \<le> unat len"
  by (simp add: validate_length_def word_le_nat_alt)

lemma validate_v6: "is_ipv6 p \<Longrightarrow> \<not> is_ipv4 p \<Longrightarrow> validate_length p len \<Longrightarrow> 36 \<le> unat len"
  by (simp add: validate_length_def word_le_nat_alt)

lemma read_v2_body_Some:
  assumes "read_v2_body cmd p len s = (Some h, rest)"
  shows "\<exists>payload. s = payload @ rest \<and> length payload = unat len \<and> length payload \<le> bufio_size \<and>
    validate_length p len \<and> h = v2_addrs (if is_ipv4 p then 4 else 16) cmd p payload \<and> (is_ipv4 p \<or> is_ipv6 p)"
proof -
  from assms have v: "validate_length p len" "len \<noteq> 0" by (auto simp: read_v2_body_def split: if_splits)
  with assms obtain payload where p: "peek (unat len) s = Some payload"
    by (cases "peek (unat len) s") (simp_all add: read_v2_body_def)
  then have pl: "payload = take (unat len) s" "unat len \<le> length s" "unat len \<le> bufio_size"
    by (auto simp: peek_def split: if_splits)
  from assms v p have h: "h = v2_addrs (if is_ipv4 p then 4 else 16) cmd p payload" "rest = drop (unat len) s"
    "is_ipv4 p \<or> is_ipv6 p"
    by (auto simp: read_v2_body_def split: if_splits)
  with pl v show ?thesis by (intro exI [of _ payload]) simp
qed

lemma read_v2_Some:
  assumes "read_v2_header s = (Some h, rest)"
  shows "\<exists>sig b13 b14 l1 l2 payload.
    s = sig @ [b13, b14, l1, l2] @ payload @ rest \<and> length sig = 12 \<and> length payload = unat (be16 l1 l2) \<and>
    length payload \<le> bufio_size \<and> supported_command (byte_word b13) \<and>
    validate_length (byte_word b14) (be16 l1 l2) \<and>
    h = v2_addrs (if is_ipv4 (byte_word b14) then 4 else 16) (byte_word b13) (byte_word b14) payload \<and>
    (is_ipv4 (byte_word b14) \<or> is_ipv6 (byte_word b14))"
proof -
  from assms have len: "12 \<le> length s"
    by (cases "12 \<le> length s") (simp_all add: read_v2_header_def read_full_def)
  let ?s1 = "drop 12 s"
  have s: "s = take 12 s @ ?s1" by simp
  from assms len obtain b13 s2 where s1: "?s1 = b13 # s2"
    by (cases ?s1) (simp_all add: read_v2_header_def read_full_def)
  from assms len s1 have sup: "supported_command (byte_word b13)"
    by (cases "supported_command (byte_word b13)") (simp_all add: read_v2_header_def read_full_def)
  with assms len s1 obtain b14 l1 l2 s4 where s2: "s2 = b14 # l1 # l2 # s4"
    by (auto simp: read_v2_header_def read_full_def split: list.splits)
  let ?p = "byte_word b14" and ?len = "be16 l1 l2"
  from assms len s1 s2 sup have b: "read_v2_body (byte_word b13) ?p ?len s4 = (Some h, rest)"
    by (simp add: read_v2_header_def read_full_def)
  from read_v2_body_Some [OF b] obtain payload where
    "s4 = payload @ rest" "length payload = unat ?len" "length payload \<le> bufio_size" "validate_length ?p ?len"
    "h = v2_addrs (if is_ipv4 ?p then 4 else 16) (byte_word b13) ?p payload" "is_ipv4 ?p \<or> is_ipv6 ?p" by blast
  with s s1 s2 len sup show ?thesis
    by (intro exI [of _ "take 12 s"] exI [of _ b13] exI [of _ b14] exI [of _ l1] exI [of _ l2] exI [of _ payload]) simp
qed

section \<open>The connection after the first use\<close>

lemma load_once_loaded [simp]: "pc_loaded (load_once resolve c)"
  by (auto simp: load_once_def try_use_proxy_def split_beta Let_def split: option.splits)

lemma load_once_idem [simp]: "load_once resolve (load_once resolve c) = load_once resolve c"
  by (simp add: load_once_def [of resolve "load_once resolve c"])

lemma load_once_update [simp]:
  "load_once resolve ((load_once resolve c)\<lparr>pc_rest := r\<rparr>) = (load_once resolve c)\<lparr>pc_rest := r\<rparr>"
  by (simp add: load_once_def [of resolve "(load_once resolve c)\<lparr>pc_rest := r\<rparr>"])

lemma conn_run_loaded:
  "pc_loaded c \<Longrightarrow> \<exists>bs. conn_run resolve ops c = (bs, c\<lparr>pc_rest := drop (length bs) (pc_rest c)\<rparr>) \<and>
     bs = take (length bs) (pc_rest c)"
proof (induction resolve ops c rule: conn_run.induct)
  case (2 resolve n ops c)
  have rd: "conn_read resolve n c = (take n (pc_rest c), c\<lparr>pc_rest := drop n (pc_rest c)\<rparr>)"
    using "2.prems" by (simp add: conn_read_def load_once_def)
  let ?c = "c\<lparr>pc_rest := drop n (pc_rest c)\<rparr>"
  from "2.IH" [OF rd [symmetric] refl] "2.prems" obtain bs where
    bs: "conn_run resolve ops ?c = (bs, ?c\<lparr>pc_rest := drop (length bs) (pc_rest ?c)\<rparr>)" "bs = take (length bs) (pc_rest ?c)"
    by auto
  show ?case
  proof (cases "n \<le> length (pc_rest c)")
    case True
    with rd bs show ?thesis by (auto simp: add.commute take_add)
  next
    case False
    with bs have "bs = []" by simp
    with False rd bs show ?thesis by simp
  qed
next
  case (3 resolve ops c)
  then show ?case by (simp add: conn_local_addr_def load_once_def Let_def)
next
  case (4 resolve ops c)
  then show ?case by (simp add: conn_remote_addr_def load_once_def Let_def)
qed auto

lemma conn_first_use:
  "\<exists>bs c'. conn_run resolve (OpRemoteAddr # ops) c = (bs, c') \<and> bs @ pc_rest c' = pc_rest (load_once resolve c)"
proof -
  let ?c = "load_once resolve c"
  from conn_run_loaded [of ?c resolve ops] obtain bs where
    "conn_run resolve ops ?c = (bs, ?c\<lparr>pc_rest := drop (length bs) (pc_rest ?c)\<rparr>)" "bs = take (length bs) (pc_rest ?c)"
    by auto
  then show ?thesis
    by (intro exI [of _ bs] exI [of _ "?c\<lparr>pc_rest := drop (length bs) (pc_rest ?c)\<rparr>"])
      (simp add: conn_remote_addr_def Let_def, metis append_take_drop_id)
qed

section \<open>Version 1 lines\<close>

definition plain_word :: "string \<Rightarrow> bool" where
  "plain_word w \<longleftrightarrow> w \<noteq> [] \<and> list_all (\<lambda>c. \<not> is_space c) w"

lemma split_plain_words:
  "ws \<noteq> [] \<Longrightarrow> list_all plain_word ws \<Longrightarrow>
     filter (\<lambda>w. w \<noteq> []) (go_split (map (\<lambda>c. if is_space c then SP else c) (go_join ws [SP] @ [CR, LF])) SP) = ws"
proof (induction ws "[SP]" rule: go_join.induct)
  case (2 w)
  then have m: "map (\<lambda>c. if is_space c then SP else c) w = w" and n: "SP \<notin> set w" "w \<noteq> []"
    by (auto simp: plain_word_def list_all_iff map_idI)
  show ?case using n by (simp add: m go_split_append_sep)
next
  case (3 w v ws)
  then have m: "map (\<lambda>c. if is_space c then SP else c) w = w" and n: "SP \<notin> set w" "w \<noteq> []"
    by (auto simp: plain_word_def list_all_iff map_idI)
  from 3 have ih: "filter (\<lambda>w. w \<noteq> []) (go_split (map (\<lambda>c. if is_space c then SP else c) (go_join (v # ws) [SP] @ [CR, LF])) SP) = v # ws"
    by simp
  have "go_join (w # v # ws) [SP] @ [CR, LF] = w @ SP # (go_join (v # ws) [SP] @ [CR, LF])" by simp
  then have "go_split (map (\<lambda>c. if is_space c then SP else c) (go_join (w # v # ws) [SP] @ [CR, LF])) SP =
      w # go_split (map (\<lambda>c. if is_space c then SP else c) (go_join (v # ws) [SP] @ [CR, LF])) SP"
    using n(1) by (simp add: m go_split_append_sep)
  with ih n(2) show ?case by simp
qed simp

lemma fields_plain_words:
  "ws \<noteq> [] \<Longrightarrow> list_all plain_word ws \<Longrightarrow> go_fields (go_join ws [SP] @ [CR, LF]) = ws"
  unfolding go_fields_def by (rule split_plain_words)

lemma join_no_LF: "list_all plain_word ws \<Longrightarrow> LF \<notin> set (go_join ws [SP])"
  by (induction ws "[SP]" rule: go_join.induct) (auto simp: plain_word_def list_all_iff)

definition v1_line :: "string list \<Rightarrow> string" where
  "v1_line ws = go_join (''PROXY'' # ws) [SP] @ [CR, LF]"

lemma read_v1_line:
  assumes "list_all plain_word ws"
  shows "read_line (v1_line ws @ rest) = (Some (v1_line ws), rest)" "go_fields (v1_line ws) = ''PROXY'' # ws"
proof -
  have p: "list_all plain_word (''PROXY'' # ws)" using assms by (simp add: plain_word_def is_space_def)
  have "v1_line ws @ rest = (go_join (''PROXY'' # ws) [SP] @ [CR]) @ LF # rest" by (simp add: v1_line_def)
  moreover have "LF \<notin> set (go_join (''PROXY'' # ws) [SP] @ [CR])" using join_no_LF [OF p] by simp
  ultimately show "read_line (v1_line ws @ rest) = (Some (v1_line ws), rest)"
    using index_byte_append_Cons [of LF "go_join (''PROXY'' # ws) [SP] @ [CR]" rest]
    by (simp add: read_line_def v1_line_def)
  show "go_fields (v1_line ws) = ''PROXY'' # ws"
    unfolding v1_line_def by (rule fields_plain_words [OF _ p]) simp
qed

section \<open>Properties\<close>


text \<open>
  C37: other streams pass through. A connection whose first bytes are neither signature, or
  that ends within 13 bytes, reports the addresses of the wrapped connection, and what is
  read from it is what was sent.
\<close>

theorem plain_stream_untouched:
  assumes "length s < 13 \<or> \<not> has_prefix s sig_v1 \<and> \<not> has_prefix s sig_v2"
  shows "fst (conn_remote_addr resolve (new_conn loc rm s)) = rm \<and>
    fst (conn_local_addr resolve (new_conn loc rm s)) = loc \<and>
    (\<exists>bs c'. conn_run resolve (OpRemoteAddr # ops) (new_conn loc rm s) = (bs, c') \<and> bs @ pc_rest c' = s)"
proof -
  have p: "has_prefix (take 13 s) x \<Longrightarrow> has_prefix s x" for x
    by (metis append.assoc append_take_drop_id has_prefix_iff)
  have "load_once resolve (new_conn loc rm s) = (new_conn loc rm s)\<lparr>pc_loaded := True\<rparr>"
    using assms p by (auto simp: load_once_def try_use_proxy_def new_conn_def peek_def)
  with conn_first_use [of resolve ops "new_conn loc rm s"] show ?thesis
    by (auto simp: conn_remote_addr_def conn_local_addr_def Let_def new_conn_def)
qed

text \<open>
  C36: what a version 2 header takes. When one is accepted, exactly its 16 fixed bytes and the
  number of bytes its length field announces are gone from the stream; the length is within
  the buffer and covers the address block of its family, and the rest of it are the TLVs.
\<close>

theorem v2_header_takes_its_length:
  assumes "read_v2_header s = (Some h, rest)"
  shows "\<exists>len. rest = drop (16 + len) s \<and> 16 + len \<le> length s \<and> len = 256 * byte_of (s ! 14) + byte_of (s ! 15) \<and>
    len \<le> 4096 \<and> len = length (h_tlvs h) + (if is_ipv4 (h_protocol h) then 12 else 36) \<and>
    supported_command (h_command h)"
proof -
  from read_v2_Some [OF assms] obtain sig b13 b14 l1 l2 payload where
    s: "s = sig @ [b13, b14, l1, l2] @ payload @ rest" "length sig = 12" and
    pl: "length payload = unat (be16 l1 l2)" "length payload \<le> bufio_size" and
    ok: "supported_command (byte_word b13)" "validate_length (byte_word b14) (be16 l1 l2)"
      "is_ipv4 (byte_word b14) \<or> is_ipv6 (byte_word b14)" and
    h: "h = v2_addrs (if is_ipv4 (byte_word b14) then 4 else 16) (byte_word b13) (byte_word b14) payload"
    by blast
  have "s = (sig @ [b13, b14, l1, l2] @ payload) @ rest" using s(1) by simp
  moreover have "length (sig @ [b13, b14, l1, l2] @ payload) = 16 + length payload" using s(2) by simp
  ultimately have "rest = drop (16 + length payload) s" "16 + length payload \<le> length s"
    by (metis append_eq_conv_conj, metis le_add1 length_append)
  moreover have "s ! 14 = l1" "s ! 15 = l2"
    using s by (simp_all add: nth_append)
  moreover have "length payload = length (h_tlvs h) + (if is_ipv4 (h_protocol h) then 12 else 36)"
    using validate_v4 [of "byte_word b14" "be16 l1 l2"] validate_v6 [of "byte_word b14" "be16 l1 l2"] ok pl(1)
    by (auto simp: h v2_addrs_def Let_def)
  moreover have "h_command h = byte_word b13" by (simp add: h v2_addrs_def Let_def)
  ultimately show ?thesis
    using pl ok(1) by (intro exI [of _ "length payload"]) (simp add: unat_be16 bufio_size_def)
qed

text \<open>
  The payload of an unsupported family leaks. A well-formed header for a UNIX or an
  unspecified address is dropped, but its payload stays in the stream: the application reads
  the address bytes as the start of the client's data.
\<close>

theorem unsupported_payload_leaks:
  assumes "supported_command cmd" and "\<not> is_ipv4 proto" and "\<not> is_ipv6 proto"
    and "validate_length proto (word_of_nat (length payload))" and "0 < length payload" and "length payload \<le> 4096"
  shows "fst (conn_read resolve (length payload) (new_conn loc rm (v2_encode cmd proto payload @ rest))) = payload \<and>
    fst (conn_remote_addr resolve (new_conn loc rm (v2_encode cmd proto payload @ rest))) = rm"
  using read_v2_encoded [where rest = rest, OF assms(1) assms(4) assms(5) assms(6)] assms(2,3)
    try_encoded [where resolve = resolve and loc = loc and rm = rm and cmd = cmd and proto = proto and
      payload = payload and rest = rest]
  by (simp add: conn_read_def conn_remote_addr_def load_once_def new_conn_def Let_def)

text \<open>
  Version 1. A line of six words for TCP4 or TCP6 whose addresses resolve gives those
  addresses (IPv6 ones bracketed for the resolver), and the stream goes on after the line;
  when one does not resolve, the connection keeps its own addresses and the line is gone.
\<close>

theorem proxy_v1_line:
  assumes "list_all plain_word [ra, la, rp, lp]" and "v6 \<longrightarrow> fam = ''TCP6''" and "\<not> v6 \<longrightarrow> fam = ''TCP4''"
  shows "read_v1_header resolve (v1_line [fam, ra, la, rp, lp] @ rest) =
    (case (resolve (if v6 then ''tcp6'' else ''tcp4'') ((if v6 then ''['' @ ra @ '']'' else ra) @ '':'' @ rp),
           resolve (if v6 then ''tcp6'' else ''tcp4'') ((if v6 then ''['' @ la @ '']'' else la) @ '':'' @ lp)) of
       (Inr r, Inr l) \<Rightarrow> Some (v1_header r l)
     | _ \<Rightarrow> None, rest)"
proof -
  have "plain_word ''TCP4''" "plain_word ''TCP6''" by (simp_all add: plain_word_def is_space_def)
  then have w: "list_all plain_word [fam, ra, la, rp, lp]" using assms by (cases v6) auto
  show ?thesis
    using read_v1_line(1) [OF w, of rest] read_v1_line(2) [OF w] assms(2,3)
    by (cases v6) (auto simp: read_v1_header_def v1_addrs_def Let_def split: sum.splits)
qed

section \<open>Witnesses\<close>

definition demo_resolve :: resolver where
  "demo_resolve net a = (if a = [] then Inl (ErrMsg ''missing address'') else Inr (TcpAddr a 80))"


lemma plain_stream_untouched_witness:
  "fst (conn_remote_addr demo_resolve (new_conn None (Some (TcpAddr ''10.0.0.1'' 9)) ''GET / HTTP/1.1'')) = Some (TcpAddr ''10.0.0.1'' 9)"
  using plain_stream_untouched [of "''GET / HTTP/1.1''" demo_resolve None "Some (TcpAddr ''10.0.0.1'' 9)" "[]"]
  by (simp add: sig_v1_def sig_v2_def)

lemma v2_header_takes_its_length_witness:
  "\<exists>s h rest. read_v2_header s = (Some h, rest) \<and> 16 + length (h_tlvs h) + 12 \<le> length s"
proof -
  let ?p = "v2_payload ''abcd'' ''efgh'' 8080 443 ''T''"
  have len: "length ?p = 13" by (simp add: v2_payload_def)
  have v4: "is_ipv4 tcp_v4" by (simp add: is_ipv4_def tcp_v4_def)
  have ok: "supported_command cmd_local" by (simp add: supported_command_def)
  have val: "validate_length tcp_v4 (word_of_nat (length ?p))" by (simp add: validate_length_def v4 len)
  have "read_v2_header (v2_encode cmd_local tcp_v4 ?p @ []) = (Some (v2_addrs 4 cmd_local tcp_v4 ?p), [])"
    using read_v2_encoded [where rest = "[]", OF ok val] by (simp add: v4 len)
  moreover from v2_header_takes_its_length [OF this] have
    "16 + length (h_tlvs (v2_addrs 4 cmd_local tcp_v4 ?p)) + 12 \<le> length (v2_encode cmd_local tcp_v4 ?p @ [])"
    by (auto simp: v2_addrs_def Let_def v4)
  ultimately show ?thesis by blast
qed

lemma unsupported_payload_leaks_witness:
  "fst (conn_read demo_resolve (length ''abc'') (new_conn None None (v2_encode cmd_local 0 ''abc'' @ ''GET''))) = ''abc''"
  using unsupported_payload_leaks [of cmd_local 0 "''abc''" demo_resolve None None "''GET''"]
  by (simp add: supported_command_def is_ipv4_def is_ipv6_def validate_length_def is_unix_def is_unspec_def)

lemma proxy_v1_line_witness:
  "fst (read_v1_header demo_resolve (v1_line [''TCP4'', ''1.2.3.4'', ''5.6.7.8'', ''99'', ''80''] @ ''GET'')) =
     Some (v1_header (TcpAddr ''1.2.3.4:99'' 80) (TcpAddr ''5.6.7.8:80'' 80))"
  using proxy_v1_line [of "''1.2.3.4''" "''5.6.7.8''" "''99''" "''80''" False "''TCP4''" demo_resolve "''GET''"]
  by (simp add: plain_word_def is_space_def demo_resolve_def)

end
