(* ===== verification/SseEvent.thy ===== *)
theory SseEvent
  imports Prelude
begin

text \<open>
  Server-sent events, \<open>ext/sse/event.go\<close> and \<open>ext/sse/reader.go\<close>: what the three kinds of
  event write, and the reader that parses events back from a stream.

  \<open>json.NewEncoder(buf).Encode\<close> is the parameter \<open>enc\<close>; the writer an event goes to is a
  parameter \<open>wr\<close> that takes its state and the bytes and gives an error, if any.
\<close>

section \<open>Events\<close>

record text_event =
  te_id :: string
  te_name :: string
  te_retry :: int
  te_data :: string

record json_event =
  je_id :: string
  je_name :: string
  je_retry :: int
  je_data :: any

datatype sse_event = TextEv text_event | JsonEv json_event | PingEv

type_synonym 'w writer = "'w \<Rightarrow> string \<Rightarrow> 'w \<times> gerr option"
type_synonym encoder = "any \<Rightarrow> gerr + string"

text \<open>The fields both kinds of event start with.\<close>

definition field_line :: "string \<Rightarrow> string \<Rightarrow> string" where
  "field_line name v = name @ '': '' @ v @ [LF]"

definition event_head :: "string \<Rightarrow> int \<Rightarrow> string \<Rightarrow> string" where
  "event_head i retry name =
     (if i \<noteq> [] then field_line ''id'' i else []) @
     (if 0 < retry then field_line ''retry'' (itoa retry) else []) @
     (if name \<noteq> [] then field_line ''event'' name else [])"

definition data_lines :: "string list \<Rightarrow> string" where
  "data_lines ls = concat (map (field_line ''data'') ls)"

definition text_frame :: "text_event \<Rightarrow> string" where
  "text_frame e =
     event_head (te_id e) (te_retry e) (te_name e) @ data_lines (go_split (te_data e) LF) @ [LF, LF]"

definition text_write :: "'w writer \<Rightarrow> text_event \<Rightarrow> 'w \<Rightarrow> 'w \<times> gerr option" where
  "text_write wr e w = wr w (text_frame e)"

definition json_frame :: "json_event \<Rightarrow> string \<Rightarrow> string" where
  "json_frame e buf =
     event_head (je_id e) (je_retry e) (je_name e) @
     data_lines (filter (\<lambda>l. l \<noteq> []) (go_split buf LF)) @ [LF, LF]"

definition json_write :: "encoder \<Rightarrow> 'w writer \<Rightarrow> json_event \<Rightarrow> 'w \<Rightarrow> 'w \<times> gerr option" where
  "json_write enc wr e w =
     (case enc (je_data e) of Inl err \<Rightarrow> (w, Some err) | Inr buf \<Rightarrow> wr w (json_frame e buf))"

definition ping_write :: "'w writer \<Rightarrow> 'w \<Rightarrow> 'w \<times> gerr option" where
  "ping_write wr w = wr w ('': ping'' @ [LF, LF, LF])"

definition event_write :: "encoder \<Rightarrow> 'w writer \<Rightarrow> sse_event \<Rightarrow> 'w \<Rightarrow> 'w \<times> gerr option" where
  "event_write enc wr e w =
     (case e of TextEv t \<Rightarrow> text_write wr t w | JsonEv j \<Rightarrow> json_write enc wr j w | PingEv \<Rightarrow> ping_write wr w)"

section \<open>The reader\<close>

text \<open>
  The stream behind \<open>r.r\<close>: the pieces its \<open>Read\<close> hands out, one at a time and cut to the
  room the caller has, and the error after the last one (\<open>io.EOF\<close>, or another).
\<close>

record event_reader =
  er_chunks :: "string list"
  er_end :: gerr

definition io_eof :: gerr where "io_eof = ErrMsg ''EOF''"

definition buf_size :: nat where "buf_size = 4096"

definition stream_size :: "string list \<Rightarrow> nat" where
  "stream_size cs = sum_list (map (\<lambda>c. Suc (length c)) cs)"

text \<open>
  \<open>ReadBytes\<close> of a line feed on a \<open>bufio.Reader\<close>: the fragments collected so far, the
  buffer, and what the stream still has. It gives the line, if the stream does not end
  before, the buffer and the stream.
\<close>

function read_bytes :: "string \<Rightarrow> string \<Rightarrow> string list \<Rightarrow> string option \<times> string \<times> string list" where
  "read_bytes acc buf cs =
     (case index_byte buf LF of
        Some i \<Rightarrow> (Some (acc @ take (Suc i) buf), drop (Suc i) buf, cs)
      | None \<Rightarrow>
          if buf_size \<le> length buf then read_bytes (acc @ buf) [] cs
          else (case cs of
                  [] \<Rightarrow> (None, [], [])
                | c # cs' \<Rightarrow>
                    let k = buf_size - length buf
                    in read_bytes acc (buf @ take k c) (if drop k c = [] then cs' else drop k c # cs')))"
  by pat_completeness auto

termination
  by (relation "measures [\<lambda>(acc, buf, cs). stream_size cs, \<lambda>(acc, buf, cs). length buf]")
    (auto simp: stream_size_def buf_size_def)

declare read_bytes.simps [simp del]

text \<open>One line of \<open>Next\<close>: the event is complete, or it goes on with the number of empty lines.\<close>

definition next_line :: "text_event \<Rightarrow> nat \<Rightarrow> string \<Rightarrow> text_event \<times> nat + text_event" where
  "next_line evt n line =
     (if has_prefix line '':'' then Inl (evt, n)
      else if line = [LF] then (if Suc n > 1 then Inr evt else Inl (evt, Suc n))
      else if has_prefix line ''id:'' then Inl (evt\<lparr>te_id := trim_space (drop 3 line)\<rparr>, 0)
      else if has_prefix line ''event:'' then Inl (evt\<lparr>te_name := trim_space (drop 6 line)\<rparr>, 0)
      else if has_prefix line ''retry:''
      then (let (retry, ok) = atoi (trim_space (drop 6 line))
            in Inl (if ok then evt\<lparr>te_retry := retry\<rparr> else evt, 0))
      else if has_prefix line ''data:''
      then Inl (if te_data evt = [] then evt\<lparr>te_data := trim_space (drop 5 line)\<rparr>
                else evt\<lparr>te_data := te_data evt @ [LF] @ trim_space (drop 5 line)\<rparr>, 0)
      else Inl (evt, 0))"

text \<open>The first line of a byte string, and what follows it.\<close>

definition line_split :: "string \<Rightarrow> string option \<times> string" where
  "line_split s =
     (case index_byte s LF of None \<Rightarrow> (None, []) | Some i \<Rightarrow> (Some (take (Suc i) s), drop (Suc i) s))"

lemma line_split_line: "LF \<notin> set l \<Longrightarrow> line_split (l @ LF # s) = (Some (l @ [LF]), s)"
  by (simp add: line_split_def index_byte_append_Cons)

lemma line_split_append:
  "index_byte s LF = Some i \<Longrightarrow> LF \<notin> set acc \<Longrightarrow> line_split (acc @ s @ t) = (Some (acc @ take (Suc i) s), drop (Suc i) s @ t)"
proof -
  assume "index_byte s LF = Some i" and acc: "LF \<notin> set acc"
  then have i: "i < length s" "s = take i s @ LF # drop (Suc i) s" "LF \<notin> set (take i s)"
    using index_byte_Some [of s LF i] by auto
  then have "acc @ s @ t = (acc @ take i s) @ LF # (drop (Suc i) s @ t)" by (metis append.assoc append_Cons)
  moreover have "LF \<notin> set (acc @ take i s)" using acc i(3) by simp
  from line_split_line [OF this]
  have "line_split ((acc @ take i s) @ LF # (drop (Suc i) s @ t)) = (Some ((acc @ take i s) @ [LF]), drop (Suc i) s @ t)" .
  ultimately have "line_split (acc @ s @ t) = (Some ((acc @ take i s) @ [LF]), drop (Suc i) s @ t)"
    by (simp only:)
  moreover have "take i s @ [LF] = take (Suc i) s" using i(1,2) by (metis nth_append_length take_Suc_conv_app_nth length_take min.absorb4)
  ultimately show ?thesis by simp
qed

lemma line_split_None: "LF \<notin> set s \<Longrightarrow> line_split s = (None, [])"
  by (simp add: line_split_def index_byte_None_iff [THEN iffD2])

text \<open>Reading through the buffer is reading the whole: however the stream is cut.\<close>

lemma read_bytes_spec:
  assumes "LF \<notin> set acc" "read_bytes acc buf cs = (r, buf', cs')"
  shows "(r, buf' @ concat cs') = line_split (acc @ buf @ concat cs)"
  using assms
proof (induction acc buf cs rule: read_bytes.induct)
  case (1 acc buf cs)
  show ?case
  proof (cases "index_byte buf LF")
    case (Some i)
    then show ?thesis
      using "1.prems" line_split_append [OF Some "1.prems"(1), of "concat cs"] by (subst (asm) read_bytes.simps) auto
  next
    case None
    then have nb: "LF \<notin> set (acc @ buf)" using "1.prems"(1) by (simp add: index_byte_None_iff)
    show ?thesis
    proof (cases "buf_size \<le> length buf")
      case True
      have "read_bytes (acc @ buf) [] cs = (r, buf', cs')"
        using "1.prems"(2) None True by (subst (asm) read_bytes.simps) simp
      from "1.IH"(1) [OF None True nb this] show ?thesis by simp
    next
      case False
      show ?thesis
      proof (cases cs)
        case Nil
        with None False nb "1.prems"(2) show ?thesis
          by (subst (asm) read_bytes.simps) (simp add: line_split_None)
      next
        case (Cons c cs2)
        let ?k = "buf_size - length buf"
        let ?cs = "if drop ?k c = [] then cs2 else drop ?k c # cs2"
        have "read_bytes acc (buf @ take ?k c) ?cs = (r, buf', cs')"
          using "1.prems"(2) None False Cons by (subst (asm) read_bytes.simps) (simp add: Let_def)
        from "1.IH"(2) [OF None False Cons refl "1.prems"(1) this]
        have ih: "(r, buf' @ concat cs') = line_split (acc @ (buf @ take ?k c) @ concat ?cs)" .
        have "concat ?cs = drop ?k c @ concat cs2" by auto
        then have "acc @ (buf @ take ?k c) @ concat ?cs = acc @ buf @ concat cs" by (simp add: Cons)
        with ih show ?thesis by simp
      qed
    qed
  qed
qed

lemma line_split_shorter: "line_split s = (Some l, t) \<Longrightarrow> length t < length s"
  using index_byte_Some [of s LF] by (auto simp: line_split_def split: option.splits)

lemma read_bytes_decreases:
  assumes "(Some line, buf', cs') = read_bytes [] buf cs"
  shows "length buf' + length (concat cs') < length buf + length (concat cs)"
proof -
  have "line_split (buf @ concat cs) = (Some line, buf' @ concat cs')"
    using read_bytes_spec [of "[]" buf cs "Some line" buf' cs'] assms by simp
  from line_split_shorter [OF this] show ?thesis by (simp only: length_append)
qed

text \<open>
  The loop of \<open>Next\<close>: the event, whether it is complete, and what is left in the buffer and
  in the stream.
\<close>

function read_loop :: "text_event \<Rightarrow> nat \<Rightarrow> string \<Rightarrow> string list \<Rightarrow> text_event \<times> bool \<times> string \<times> string list" where
  "read_loop evt n buf cs =
     (case read_bytes [] buf cs of
        (None, buf', cs') \<Rightarrow> (evt, False, buf', cs')
      | (Some line, buf', cs') \<Rightarrow>
          (case next_line evt n line of
             Inr e \<Rightarrow> (e, True, buf', cs')
           | Inl (evt', n') \<Rightarrow> read_loop evt' n' buf' cs'))"
  by pat_completeness auto

termination
  by (relation "measure (\<lambda>(evt, n, buf, cs). length buf + length (concat cs))")
    (auto dest: read_bytes_decreases simp del: length_concat)

declare read_loop.simps [simp del]

definition empty_event :: text_event where
  "empty_event = \<lparr>te_id = [], te_name = [], te_retry = 0, te_data = []\<rparr>"

text \<open>\<open>Next\<close> makes a buffered reader of its own, which is gone when it returns.\<close>

definition next_event :: "event_reader \<Rightarrow> (text_event \<times> gerr option) \<times> event_reader" where
  "next_event r =
     (case read_loop empty_event 0 [] (er_chunks r) of
        (evt, ok, buf, cs) \<Rightarrow> ((evt, if ok then None else Some (er_end r)), r\<lparr>er_chunks := cs\<rparr>))"

fun next_events :: "nat \<Rightarrow> event_reader \<Rightarrow> (text_event \<times> gerr option) list" where
  "next_events 0 r = []"
| "next_events (Suc k) r = (let (e, r') = next_event r in e # next_events k r')"


section \<open>Reading as a function of the whole stream\<close>

function parse_event :: "text_event \<Rightarrow> nat \<Rightarrow> string \<Rightarrow> text_event \<times> bool \<times> string" where
  "parse_event evt n s =
     (case line_split s of
        (None, t) \<Rightarrow> (evt, False, t)
      | (Some line, t) \<Rightarrow>
          (case next_line evt n line of Inr e \<Rightarrow> (e, True, t) | Inl (evt', n') \<Rightarrow> parse_event evt' n' t))"
  by pat_completeness auto

termination
  by (relation "measure (\<lambda>(evt, n, s). length s)") (auto dest: line_split_shorter [OF sym])

declare parse_event.simps [simp del]

lemma read_loop_parse:
  "read_loop evt n buf cs = (e, ok, buf', cs') \<Longrightarrow> parse_event evt n (buf @ concat cs) = (e, ok, buf' @ concat cs')"
proof (induction evt n buf cs rule: read_loop.induct)
  case (1 evt n buf cs)
  obtain r b c where rb: "read_bytes [] buf cs = (r, b, c)" by (cases "read_bytes [] buf cs") auto
  then have sp: "line_split (buf @ concat cs) = (r, b @ concat c)"
    using read_bytes_spec [of "[]" buf cs r b c] by simp
  show ?case
  proof (cases r)
    case None
    with rb have "read_loop evt n buf cs = (evt, False, b, c)" by (subst read_loop.simps) simp
    moreover have "parse_event evt n (buf @ concat cs) = (evt, False, b @ concat c)"
      using sp None by (subst parse_event.simps) simp
    ultimately show ?thesis using "1.prems" by simp
  next
    case (Some line)
    show ?thesis
    proof (cases "next_line evt n line")
      case (Inl a)
      obtain evt' n' where a: "a = (evt', n')" by (cases a)
      have "read_loop evt' n' b c = (e, ok, buf', cs')"
        using "1.prems" rb Some Inl a by (simp add: read_loop.simps [of evt])
      from "1.IH" [OF rb [symmetric] Some refl Inl a [symmetric] this]
      show ?thesis using sp Some Inl a by (simp add: parse_event.simps [of evt])
    next
      case (Inr x)
      with rb Some have "read_loop evt n buf cs = (x, True, b, c)" by (subst read_loop.simps) simp
      moreover have "parse_event evt n (buf @ concat cs) = (x, True, b @ concat c)"
        using sp Some Inr by (subst parse_event.simps) simp
      ultimately show ?thesis using "1.prems" by simp
    qed
  qed
qed

lemma next_event_parse:
  "parse_event empty_event 0 (concat (er_chunks r)) = (e, ok, t) \<Longrightarrow>
     fst (next_event r) = (e, if ok then None else Some (er_end r))"
  using read_loop_parse [of empty_event 0 "[]" "er_chunks r"]
  by (cases "read_loop empty_event 0 [] (er_chunks r)") (auto simp: next_event_def)

lemma parse_event_line:
  "LF \<notin> set l \<Longrightarrow> parse_event evt n (l @ LF # s) =
     (case next_line evt n (l @ [LF]) of Inr e \<Rightarrow> (e, True, s) | Inl (evt', n') \<Rightarrow> parse_event evt' n' s)"
  by (subst parse_event.simps) (simp add: line_split_line)

lemma parse_event_field:
  "LF \<notin> set name \<Longrightarrow> LF \<notin> set v \<Longrightarrow> parse_event evt n (field_line name v @ s) =
     (case next_line evt n (field_line name v) of Inr e \<Rightarrow> (e, True, s) | Inl (evt', n') \<Rightarrow> parse_event evt' n' s)"
  using parse_event_line [of "name @ '': '' @ v" evt n s] by (simp add: field_line_def)

lemma trim_space_value [simp]: "trim_space (SP # v @ [LF]) = trim_space v"
proof (cases "list_all is_space v")
  case True
  then have "dropWhile is_space (v @ [LF]) = []" "dropWhile is_space v = []"
    by (auto simp: list_all_iff dropWhile_eq_Nil_conv)
  then show ?thesis by (simp add: trim_space_def trim_by_def del: dropWhile_eq_Nil_conv)
next
  case False
  then have "dropWhile is_space (v @ [LF]) = dropWhile is_space v @ [LF]" by (auto simp: list_all_iff dropWhile_append1)
  then show ?thesis by (simp add: trim_space_def trim_by_def trim_right_drop_last)
qed

definition add_data :: "string \<Rightarrow> string \<Rightarrow> string" where
  "add_data d l = (if d = [] then trim_space l else d @ [LF] @ trim_space l)"

lemma next_line_fields:
  "next_line evt n (field_line ''id'' v) = Inl (evt\<lparr>te_id := trim_space v\<rparr>, 0)"
  "next_line evt n (field_line ''event'' v) = Inl (evt\<lparr>te_name := trim_space v\<rparr>, 0)"
  "next_line evt n (field_line ''data'' v) = Inl (evt\<lparr>te_data := add_data (te_data evt) v\<rparr>, 0)"
  "next_line evt n (field_line ''retry'' v) =
     Inl (if snd (atoi (trim_space v)) then evt\<lparr>te_retry := fst (atoi (trim_space v))\<rparr> else evt, 0)"
  by (simp_all add: next_line_def field_line_def add_data_def split_beta Let_def)


lemma parse_data_lines:
  "list_all (\<lambda>l. LF \<notin> set l) ls \<Longrightarrow>
     parse_event evt n (data_lines ls @ s) =
     parse_event (evt\<lparr>te_data := foldl add_data (te_data evt) ls\<rparr>) (if ls = [] then n else 0) s"
proof (induction ls arbitrary: evt n)
  case Nil
  then show ?case by (simp add: data_lines_def)
next
  case (Cons l ls)
  have "parse_event evt n (data_lines (l # ls) @ s) = parse_event evt n (field_line ''data'' l @ data_lines ls @ s)"
    by (simp add: data_lines_def)
  also have "\<dots> = parse_event (evt\<lparr>te_data := add_data (te_data evt) l\<rparr>) 0 (data_lines ls @ s)"
    using Cons.prems by (simp add: parse_event_field next_line_fields)
  finally show ?case using Cons by simp
qed

lemma trim_space_itoa [simp]: "trim_space (itoa i) = itoa i"
proof -
  have "c \<in> set (itoa i) \<Longrightarrow> \<not> is_space c" for c
    using set_itoa [of c i] is_digit_plain [of c] by auto
  then show ?thesis unfolding trim_space_def by (intro trim_by_id) (simp add: hd_in_set)
qed

lemma itoa_no_LF [simp]: "LF \<notin> set (itoa i)"
  using set_itoa [of LF i] is_digit_plain [of LF] by auto

lemma parse_event_head:
  assumes "LF \<notin> set i" "LF \<notin> set name" "retry \<le> max_int64"
  shows "\<exists>n'. parse_event evt n (event_head i retry name @ s) =
    parse_event (evt\<lparr>te_id := if i = [] then te_id evt else trim_space i,
                     te_retry := if 0 < retry then retry else te_retry evt,
                     te_name := if name = [] then te_name evt else trim_space name\<rparr>) n' s"
proof -
  have a: "0 < retry \<Longrightarrow> atoi (itoa retry) = (retry, True)"
    using assms(3) by (intro atoi_itoa) (simp_all add: min_int64_def)
  show ?thesis
    using assms
    by (auto simp: event_head_def parse_event_field next_line_fields a)
qed

lemma parse_event_end: "parse_event evt 0 ([LF, LF] @ s) = (evt, True, s)"
  using parse_event_line [of "[]" evt 0 "LF # s"] parse_event_line [of "[]" evt 1 s]
  by (simp add: next_line_def)

text \<open>What the reader makes of an event: the fields trimmed, the data line by line.\<close>

definition read_back :: "text_event \<Rightarrow> text_event" where
  "read_back e =
     \<lparr>te_id = trim_space (te_id e), te_name = trim_space (te_name e),
      te_retry = (if 0 < te_retry e then te_retry e else 0),
      te_data = foldl add_data [] (go_split (te_data e) LF)\<rparr>"

definition single_line :: "text_event \<Rightarrow> bool" where
  "single_line e \<longleftrightarrow> LF \<notin> set (te_id e) \<and> LF \<notin> set (te_name e) \<and> te_retry e \<le> max_int64"

lemma parse_text_frame:
  assumes "single_line e"
  shows "parse_event empty_event 0 (text_frame e @ s) = (read_back e, True, s)"
proof -
  let ?ls = "go_split (te_data e) LF"
  have ls: "list_all (\<lambda>l. LF \<notin> set l) ?ls" using go_split_parts by (auto simp: list_all_iff)
  have i: "LF \<notin> set (te_id e)" "LF \<notin> set (te_name e)" "te_retry e \<le> max_int64"
    using assms by (simp_all add: single_line_def)
  from parse_event_head [OF i, of empty_event 0 "data_lines ?ls @ [LF, LF] @ s"] obtain n' where
    n': "parse_event empty_event 0 (event_head (te_id e) (te_retry e) (te_name e) @ data_lines ?ls @ [LF, LF] @ s) =
      parse_event (empty_event\<lparr>te_id := if te_id e = [] then te_id empty_event else trim_space (te_id e),
                     te_retry := if 0 < te_retry e then te_retry e else te_retry empty_event,
                     te_name := if te_name e = [] then te_name empty_event else trim_space (te_name e)\<rparr>) n'
        (data_lines ?ls @ [LF, LF] @ s)" by blast
  then show ?thesis
    using parse_data_lines [OF ls, of _ n' "[LF, LF] @ s"] parse_event_end [of _ s]
    by (simp add: text_frame_def) (simp add: read_back_def empty_event_def)
qed

lemma foldl_add_data: "d \<noteq> [] \<Longrightarrow> foldl add_data d ls = d @ concat (map (\<lambda>l. LF # trim_space l) ls)"
  by (induction ls arbitrary: d) (simp_all add: add_data_def)

lemma go_join_hd_Cons: "go_join ((c # l) # ls) sep = c # go_join (l # ls) sep"
  by (cases ls) simp_all

lemma concat_join: "l @ concat (map (\<lambda>l. LF # l) ls) = go_join (l # ls) [LF]"
  by (induction ls arbitrary: l) (simp_all add: go_join_hd_Cons)

definition trimmed_event :: "text_event \<Rightarrow> bool" where
  "trimmed_event e \<longleftrightarrow> single_line e \<and> trim_space (te_id e) = te_id e \<and> trim_space (te_name e) = te_name e \<and>
     0 \<le> te_retry e \<and> list_all (\<lambda>l. trim_space l = l) (go_split (te_data e) LF) \<and>
     (te_data e = [] \<or> hd (te_data e) \<noteq> LF)"

lemma read_back_trimmed: "trimmed_event e \<Longrightarrow> read_back e = e"
proof -
  assume t: "trimmed_event e"
  obtain l ls where ls: "go_split (te_data e) LF = l # ls" by (cases "go_split (te_data e) LF") auto
  have tr: "trim_space l = l" "map trim_space ls = ls"
    using t ls by (auto simp: trimmed_event_def list_all_iff map_idI)
  have "foldl add_data [] (go_split (te_data e) LF) = te_data e"
  proof (cases "te_data e = []")
    case True
    then show ?thesis by (simp add: add_data_def)
  next
    case False
    then have "hd (te_data e) \<noteq> LF" using t by (simp add: trimmed_event_def)
    with False ls have "l \<noteq> []" by (cases "te_data e") (auto split: list.splits)
    then have "foldl add_data [] (l # ls) = l @ concat (map (\<lambda>l. LF # l) (map trim_space ls))"
      by (simp add: add_data_def foldl_add_data o_def tr(1))
    also have "\<dots> = go_join (l # ls) [LF]" by (simp only: tr(2) concat_join)
    also have "\<dots> = te_data e" using go_join_split [of "te_data e" LF] ls by simp
    finally show ?thesis using ls by simp
  qed
  then show ?thesis using t by (simp add: read_back_def trimmed_event_def)
qed

section \<open>One piece of the stream per event\<close>

lemma read_bytes_buffered:
  "line_split buf = (Some line, t) \<Longrightarrow> read_bytes [] buf cs = (Some line, t, cs)"
  by (subst read_bytes.simps) (auto simp: line_split_def split: option.splits)

lemma read_loop_buffered:
  "parse_event evt n buf = (e, True, t) \<Longrightarrow> read_loop evt n buf cs = (e, True, t, cs)"
proof (induction evt n buf rule: parse_event.induct)
  case (1 evt n s)
  obtain line u where ls: "line_split s = (Some line, u)"
    using "1.prems" by (subst (asm) parse_event.simps) (auto split: prod.splits option.splits)
  show ?case
  proof (cases "next_line evt n line")
    case (Inl a)
    obtain evt' n' where a: "a = (evt', n')" by (cases a)
    have "parse_event evt' n' u = (e, True, t)"
      using "1.prems" ls Inl a by (subst (asm) parse_event.simps) simp
    from "1.IH" [OF ls [symmetric] refl Inl a [symmetric] this]
    show ?thesis using ls Inl a by (subst read_loop.simps) (simp add: read_bytes_buffered)
  next
    case (Inr x)
    then have "read_loop evt n s cs = (x, True, u, cs)"
      using ls by (subst read_loop.simps) (simp add: read_bytes_buffered)
    moreover have "parse_event evt n s = (x, True, u)"
      using ls Inr by (subst parse_event.simps) simp
    ultimately show ?thesis using "1.prems" by simp
  qed
qed

lemma read_bytes_first_piece:
  "length c \<le> 4096 \<Longrightarrow> read_bytes [] [] (c # cs) = read_bytes [] c cs"
  by (subst read_bytes.simps) (simp add: buf_size_def)

lemma next_event_piece:
  assumes "er_chunks r = (text_frame e @ t) # cs" "length (text_frame e @ t) \<le> 4096" "single_line e"
  shows "next_event r = ((read_back e, None), r\<lparr>er_chunks := cs\<rparr>)"
proof -
  let ?c = "text_frame e @ t"
  have "read_loop empty_event 0 [] (?c # cs) = read_loop empty_event 0 ?c cs"
    using read_bytes_first_piece [OF assms(2), of cs] by (simp only: read_loop.simps [of empty_event 0 "[]"] read_loop.simps [of empty_event 0 ?c])
  also have "\<dots> = (read_back e, True, t, cs)"
    by (rule read_loop_buffered [OF parse_text_frame [OF assms(3)]])
  finally show ?thesis by (simp add: next_event_def assms(1))
qed

section \<open>Properties\<close>


text \<open>
  A stream that delivers every event in a piece of its own of at most 4096 bytes is read
  event by event, in order.
\<close>

theorem events_in_order:
  assumes "\<forall>e\<in>set es. single_line e \<and> length (text_frame e) \<le> 4096" and "er_chunks r = map text_frame es"
  shows "next_events (length es) r = map (\<lambda>e. (read_back e, None)) es"
  using assms
proof (induction es arbitrary: r)
  case (Cons e es)
  then have "next_event r = ((read_back e, None), r\<lparr>er_chunks := map text_frame es\<rparr>)"
    using next_event_piece [of r e "[]" "map text_frame es"] by simp
  with Cons show ?case by simp
qed simp

text \<open>
  Events that arrive in one piece are lost but for the first. What the buffered reader of
  one \<open>Next\<close> has read ahead is gone at the next call, which reports the end of the stream.
\<close>

theorem read_ahead_events_lost:
  assumes "single_line e" and "er_chunks r = [text_frame e @ text_frame e2]" and "length (text_frame e @ text_frame e2) \<le> 4096"
  shows "next_events 2 r = [(read_back e, None), (empty_event, Some (er_end r))]"
proof -
  have "next_event r = ((read_back e, None), r\<lparr>er_chunks := []\<rparr>)"
    using next_event_piece [of r e "text_frame e2" "[]"] assms by simp
  moreover have "read_bytes [] [] [] = (None, [], [])" by (subst read_bytes.simps) (simp add: buf_size_def)
  then have "read_loop empty_event 0 [] [] = (empty_event, False, [], [])" by (subst read_loop.simps) simp
  ultimately show ?thesis by (simp add: numeral_2_eq_2 next_event_def)
qed

section \<open>Witnesses\<close>

definition demo_event :: text_event where
  "demo_event = \<lparr>te_id = ''7'', te_name = ''tick'', te_retry = 0, te_data = ''a'' @ [LF] @ ''b''\<rparr>"

lemma demo_trimmed: "trimmed_event demo_event"
  by (simp add: trimmed_event_def demo_event_def single_line_def max_int64_def trim_space_def trim_by_def
    trim_right_def is_space_def)

lemma demo_single: "single_line demo_event"
  using demo_trimmed by (simp add: trimmed_event_def)

lemma demo_frame: "length (text_frame demo_event) \<le> 100"
  by (simp add: text_frame_def demo_event_def event_head_def data_lines_def field_line_def)


lemma events_in_order_witness:
  "next_events 2 \<lparr>er_chunks = [text_frame demo_event, text_frame demo_event], er_end = io_eof\<rparr> =
     [(read_back demo_event, None), (read_back demo_event, None)]"
  using events_in_order [of "[demo_event, demo_event]" "\<lparr>er_chunks = [text_frame demo_event, text_frame demo_event], er_end = io_eof\<rparr>"]
    demo_single demo_frame by (simp add: numeral_2_eq_2)

lemma read_ahead_events_lost_witness:
  "next_events 2 \<lparr>er_chunks = [text_frame demo_event @ text_frame demo_event], er_end = io_eof\<rparr> =
     [(read_back demo_event, None), (empty_event, Some io_eof)]"
  using read_ahead_events_lost [OF demo_single, of "\<lparr>er_chunks = [text_frame demo_event @ text_frame demo_event], er_end = io_eof\<rparr>" demo_event]
    demo_frame by simp

end
