(* ===== verification/SseServer.thy ===== *)
theory SseServer
  imports SseEvent Http Fs
begin

text \<open>
  The registry of streaming clients, \<open>ext/sse/server.go\<close>, \<open>client.go\<close>, \<open>streamer.go\<close>,
  \<open>option.go\<close> and \<open>error.go\<close>.

  Clients are objects the application holds on to after they have left the registry, so they
  live in a heap, and so do the response writers. A context is the cause of its cancellation,
  if it has one; cancelling the server's context cancels those of its clients. Time is in
  nanoseconds. What happens under one lock is one step; \<open>Join\<close> and \<open>KeepAlive\<close> give their
  lock up in between, so they have two steps each.
\<close>

section \<open>State\<close>

definition err_server_closed :: gerr where "err_server_closed = ErrMsg ''sse: server closed''"
definition err_client_timeout :: gerr where "err_client_timeout = ErrMsg ''sse: client timeout''"
definition err_not_streamer :: gerr where "err_not_streamer = ErrMsg ''sse: not streamer''"

text \<open>\<open>Error\<close>: an error with the identifier of the client.\<close>

definition new_error :: "string \<Rightarrow> gerr \<Rightarrow> gerr" where
  "new_error i e = Wrapped i e"

record client =
  cl_id :: string
  cl_conn :: nat
  cl_sm :: nat
  cl_cause :: "gerr option"
  cl_seen :: int

record server =
  sv_clients :: "string \<Rightarrow> nat option"
  sv_conns :: "string \<Rightarrow> nat option"
  sv_heap :: "nat \<Rightarrow> client"
  sv_next :: nat
  sv_writers :: "nat \<Rightarrow> http_rw"
  sv_cause :: "gerr option"
  sv_timeout :: int

text \<open>\<open>context.CancelCauseFunc\<close>: the first cause stays.\<close>

definition cancel :: "gerr \<Rightarrow> gerr option \<Rightarrow> gerr option" where
  "cancel e c = (case c of None \<Rightarrow> Some e | Some e' \<Rightarrow> Some e')"

definition set_client :: "nat \<Rightarrow> client \<Rightarrow> server \<Rightarrow> server" where
  "set_client p c s = s\<lparr>sv_heap := (sv_heap s)(p := c)\<rparr>"

definition cancel_client :: "nat \<Rightarrow> gerr \<Rightarrow> server \<Rightarrow> server" where
  "cancel_client p e s = set_client p ((sv_heap s p)\<lparr>cl_cause := cancel e (cl_cause (sv_heap s p))\<rparr>) s"

definition set_writer :: "nat \<Rightarrow> http_rw \<Rightarrow> server \<Rightarrow> server" where
  "set_writer i w s = s\<lparr>sv_writers := (sv_writers s)(i := w)\<rparr>"

definition unregister :: "string \<Rightarrow> server \<Rightarrow> server" where
  "unregister i s = s\<lparr>sv_clients := (sv_clients s)(i := None), sv_conns := (sv_conns s)(i := None)\<rparr>"

section \<open>Operations\<close>

definition default_timeout :: int where "default_timeout = 10 * 10 ^ 9"

definition no_client :: client where
  "no_client = \<lparr>cl_id = [], cl_conn = 0, cl_sm = 0, cl_cause = None, cl_seen = 0\<rparr>"

definition with_client_timeout :: "int \<Rightarrow> server \<Rightarrow> server" where
  "with_client_timeout d s = (if 0 < d then s\<lparr>sv_timeout := d\<rparr> else s)"

text \<open>\<open>New\<close>; the writers are those the connections will bring.\<close>

definition new_server :: "(server \<Rightarrow> server) list \<Rightarrow> (nat \<Rightarrow> http_rw) \<Rightarrow> server" where
  "new_server opts writers =
     fold (\<lambda>opt s. opt s) opts
       \<lparr>sv_clients = Map.empty, sv_conns = Map.empty, sv_heap = (\<lambda>_. no_client), sv_next = 0,
        sv_writers = writers, sv_cause = None, sv_timeout = default_timeout\<rparr>"

text \<open>\<open>NewStreamer\<close>: a nil writer, and one that cannot flush, are refused.\<close>

definition new_streamer :: "nat option \<Rightarrow> server \<Rightarrow> gerr + nat" where
  "new_streamer rw s =
     (case rw of
        None \<Rightarrow> Inl err_not_streamer
      | Some i \<Rightarrow> if w_flusher (sv_writers s i) then Inr i else Inl err_not_streamer)"

text \<open>\<open>Join\<close> under the lock: the client, whether it is a new one, the server.\<close>

definition join_locked :: "int \<Rightarrow> string \<Rightarrow> nat \<Rightarrow> server \<Rightarrow> nat \<times> bool \<times> server" where
  "join_locked now i sm s =
     (case sv_clients s i of
        None \<Rightarrow>
          (sv_next s, True,
           s\<lparr>sv_clients := (sv_clients s)(i \<mapsto> sv_next s), sv_conns := (sv_conns s)(i \<mapsto> 1),
             sv_heap := (sv_heap s)(sv_next s :=
               \<lparr>cl_id = i, cl_conn = 1, cl_sm = sm, cl_cause = sv_cause s, cl_seen = now\<rparr>),
             sv_next := Suc (sv_next s)\<rparr>)
      | Some p \<Rightarrow>
          (let n = (case sv_conns s i of None \<Rightarrow> 0 | Some k \<Rightarrow> k) + 1
           in (p, False,
               set_client p ((sv_heap s p)\<lparr>cl_conn := n, cl_seen := now, cl_sm := sm\<rparr>)
                 (s\<lparr>sv_conns := (sv_conns s)(i \<mapsto> n)\<rparr>))))"

text \<open>\<open>Join\<close> after it: the headers, the flush, and the connection number as it is now.\<close>

definition stream_headers :: "http_rw \<Rightarrow> http_rw" where
  "stream_headers w =
     http_flush (w\<lparr>w_header :=
       hdr_set (hdr_set (hdr_set (w_header w) ''Content-Type'' ''text/event-stream'')
         ''Cache-Control'' ''no-cache'') ''Connection'' ''keep-alive''\<rparr>)"

definition join_finish :: "nat \<Rightarrow> nat \<Rightarrow> server \<Rightarrow> nat \<times> server" where
  "join_finish p sm s =
     (cl_conn (sv_heap s p), set_writer sm (stream_headers (sv_writers s sm)) s)"

definition join :: "int \<Rightarrow> string \<Rightarrow> nat option \<Rightarrow> server \<Rightarrow> (gerr + nat \<times> nat \<times> bool) \<times> server" where
  "join now i rw s =
     (case new_streamer rw s of
        Inl e \<Rightarrow> (Inl e, s)
      | Inr sm \<Rightarrow>
          (let (p, fresh, s1) = join_locked now i sm s; (n, s2) = join_finish p sm s1
           in (Inr (p, n, fresh), s2)))"

definition leave :: "string \<Rightarrow> nat \<Rightarrow> server \<Rightarrow> bool \<times> server" where
  "leave i n s =
     (case sv_clients s i of
        None \<Rightarrow> (True, s)
      | Some p \<Rightarrow>
          if cl_conn (sv_heap s p) \<noteq> n then (False, s)
          else (True, cancel_client p err_server_closed (unregister i s)))"

definition get_client :: "string \<Rightarrow> server \<Rightarrow> nat option" where
  "get_client i s = sv_clients s i"

definition shutdown :: "server \<Rightarrow> server" where
  "shutdown s =
     s\<lparr>sv_cause := cancel err_server_closed (sv_cause s),
       sv_heap := (\<lambda>p. if p < sv_next s \<and> sv_cause s = None
                       then (sv_heap s p)\<lparr>cl_cause := cancel err_server_closed (cl_cause (sv_heap s p))\<rparr>
                       else sv_heap s p),
       sv_clients := Map.empty, sv_conns := Map.empty\<rparr>"

text \<open>\<open>Client.Send\<close>, \<open>Client.Close\<close> and the outcomes \<open>Client.Wait\<close> can have (none: it blocks).\<close>

definition stream_write :: "http_rw writer" where
  "stream_write w b = (case http_write b w of (n, e, w') \<Rightarrow> (w', e))"

definition send :: "encoder \<Rightarrow> int \<Rightarrow> nat \<Rightarrow> sse_event \<Rightarrow> server \<Rightarrow> gerr option \<times> server" where
  "send enc now p ev s =
     (let c = sv_heap s p
      in (case cl_cause c of
            Some e \<Rightarrow> (Some (new_error (cl_id c) e), s)
          | None \<Rightarrow>
              (case event_write enc stream_write ev (sv_writers s (cl_sm c)) of
                 (w, Some e) \<Rightarrow> (Some (new_error (cl_id c) e), set_writer (cl_sm c) w s)
               | (w, None) \<Rightarrow>
                   (None, set_writer (cl_sm c) (http_flush w) (set_client p (c\<lparr>cl_seen := now\<rparr>) s)))))"

definition close_client :: "nat \<Rightarrow> server \<Rightarrow> server" where
  "close_client p s = cancel_client p err_server_closed s"

definition wait_outcomes :: "nat \<Rightarrow> gerr option \<Rightarrow> server \<Rightarrow> gerr list" where
  "wait_outcomes p req s =
     (case cl_cause (sv_heap s p) of None \<Rightarrow> [] | Some e \<Rightarrow> [e]) @ (case req of None \<Rightarrow> [] | Some e \<Rightarrow> [e])"

text \<open>
  One round of \<open>KeepAlive\<close>, with \<open>rng\<close> the order in which it ranges over the map: the
  clients not seen for the timeout, those to ping; later, under the write lock, the first are
  cancelled and their identifiers deleted.
\<close>

definition ka_dead :: "((string \<Rightarrow> nat option) \<Rightarrow> string list) \<Rightarrow> int \<Rightarrow> server \<Rightarrow> nat list" where
  "ka_dead rng now s =
     filter (\<lambda>p. cl_seen (sv_heap s p) < now - sv_timeout s) (map (\<lambda>i. the (sv_clients s i)) (rng (sv_clients s)))"

definition ka_pings :: "((string \<Rightarrow> nat option) \<Rightarrow> string list) \<Rightarrow> int \<Rightarrow> server \<Rightarrow> nat list" where
  "ka_pings rng now s =
     filter (\<lambda>p. \<not> cl_seen (sv_heap s p) < now - sv_timeout s \<and>
                 cl_seen (sv_heap s p) < now - sv_timeout s div 2)
       (map (\<lambda>i. the (sv_clients s i)) (rng (sv_clients s)))"

definition ka_drop :: "nat \<Rightarrow> server \<Rightarrow> server" where
  "ka_drop p s = unregister (cl_id (sv_heap s p)) (cancel_client p err_client_timeout s)"

definition ka_sweep :: "nat list \<Rightarrow> server \<Rightarrow> server" where
  "ka_sweep dead s = fold ka_drop dead s"

text \<open>
  \<open>Broadcast\<close>: one task per registered client, run by the package \<open>async\<close>, the parameter
  \<open>wait\<close>. A task gets the cause of its context, if that is cancelled.
\<close>

type_synonym task = "gerr option \<Rightarrow> server \<Rightarrow> gerr option \<times> server"

definition broadcast_task :: "encoder \<Rightarrow> int \<Rightarrow> sse_event \<Rightarrow> nat \<Rightarrow> task" where
  "broadcast_task enc now ev p cause s =
     (case cause of
        Some e \<Rightarrow> (Some (new_error (cl_id (sv_heap s p)) e), s)
      | None \<Rightarrow>
          (case send enc now p ev s of
             (Some e, s') \<Rightarrow> (Some (new_error (cl_id (sv_heap s p)) e), s')
           | (None, s') \<Rightarrow> (None, s')))"

definition broadcast ::
  "(task list \<Rightarrow> server \<Rightarrow> 'r \<times> server) \<Rightarrow> ((string \<Rightarrow> nat option) \<Rightarrow> string list) \<Rightarrow> encoder \<Rightarrow> int \<Rightarrow> sse_event \<Rightarrow>
   server \<Rightarrow> 'r \<times> server" where
  "broadcast wait rng enc now ev s =
     wait (map (\<lambda>i. broadcast_task enc now ev (the (sv_clients s i))) (rng (sv_clients s))) s"

section \<open>Interleavings\<close>

text \<open>
  A server with what is under way: the joins that have given up the lock, the clients a round
  of \<open>KeepAlive\<close> has found dead and not yet dropped.
\<close>

record world =
  w_sv :: server
  w_joins :: "(nat \<times> nat) list"
  w_dead :: "nat list option"

datatype sse_op =
    OJoin int string nat
  | OJoined nat nat
  | OLeave string nat
  | OSend int nat sse_event
  | OClose nat
  | OShutdown
  | OCollect int
  | OSweep
  | ORound int

definition sse_exec :: "encoder \<Rightarrow> ((string \<Rightarrow> nat option) \<Rightarrow> string list) \<Rightarrow> sse_op \<Rightarrow> world \<Rightarrow> world" where
  "sse_exec enc rng op w =
     (let s = w_sv w in case op of
        OJoin now i rw \<Rightarrow>
          (case new_streamer (Some rw) s of
             Inl e \<Rightarrow> w
           | Inr sm \<Rightarrow> (case join_locked now i sm s of
               (p, fresh, s') \<Rightarrow> w\<lparr>w_sv := s', w_joins := w_joins w @ [(p, sm)]\<rparr>))
      | OJoined p sm \<Rightarrow>
          (if (p, sm) \<in> set (w_joins w)
           then w\<lparr>w_sv := snd (join_finish p sm s), w_joins := remove1 (p, sm) (w_joins w)\<rparr> else w)
      | OLeave i n \<Rightarrow> w\<lparr>w_sv := snd (leave i n s)\<rparr>
      | OSend now p ev \<Rightarrow> (if p < sv_next s then w\<lparr>w_sv := snd (send enc now p ev s)\<rparr> else w)
      | OClose p \<Rightarrow> (if p < sv_next s then w\<lparr>w_sv := close_client p s\<rparr> else w)
      | OShutdown \<Rightarrow> w\<lparr>w_sv := shutdown s\<rparr>
      | OCollect now \<Rightarrow> (if 0 < sv_timeout s then w\<lparr>w_dead := Some (ka_dead rng now s)\<rparr> else w)
      | OSweep \<Rightarrow> (case w_dead w of None \<Rightarrow> w | Some d \<Rightarrow> w\<lparr>w_sv := ka_sweep d s, w_dead := None\<rparr>)
      | ORound now \<Rightarrow> (if 0 < sv_timeout s then w\<lparr>w_sv := ka_sweep (ka_dead rng now s) s\<rparr> else w))"

text \<open>What the operations in \<open>P\<close> can reach.\<close>

inductive sse_reach ::
  "encoder \<Rightarrow> ((string \<Rightarrow> nat option) \<Rightarrow> string list) \<Rightarrow> (sse_op \<Rightarrow> bool) \<Rightarrow> world \<Rightarrow> world \<Rightarrow> bool"
  for enc rng P w0 where
  start: "sse_reach enc rng P w0 w0"
| step: "sse_reach enc rng P w0 w \<Longrightarrow> P op \<Longrightarrow> sse_reach enc rng P w0 (sse_exec enc rng op w)"

text \<open>An operation on the server that keeps \<open>I\<close>, and what it has to be checked for.\<close>

lemma sse_reach_invariant:
  assumes "sse_reach enc rng P w0 w" "I (w_sv w0)"
    and "\<And>op u. P op \<Longrightarrow> I (w_sv u) \<Longrightarrow> I (w_sv (sse_exec enc rng op u))"
  shows "I (w_sv w)"
  using assms(1) by (induction rule: sse_reach.induct) (simp_all add: assms(2,3))

section \<open>The registry\<close>

text \<open>
  The invariant: the two maps have the same keys, a registered client is an allocated object
  under its own identifier whose connection number is the one of the map, and a cancelled
  server has no live client.
\<close>

definition registry_ok :: "server \<Rightarrow> bool" where
  "registry_ok s \<longleftrightarrow>
     finite (dom (sv_clients s)) \<and> dom (sv_conns s) = dom (sv_clients s) \<and>
     (\<forall>i p. sv_clients s i = Some p \<longrightarrow>
        p < sv_next s \<and> cl_id (sv_heap s p) = i \<and> sv_conns s i = Some (cl_conn (sv_heap s p)) \<and>
        1 \<le> cl_conn (sv_heap s p)) \<and>
     (sv_cause s \<noteq> None \<longrightarrow> (\<forall>p < sv_next s. cl_cause (sv_heap s p) \<noteq> None))"

lemma registry_okD:
  assumes "registry_ok s" "sv_clients s i = Some p"
  shows "p < sv_next s" "cl_id (sv_heap s p) = i" "sv_conns s i = Some (cl_conn (sv_heap s p))" "1 \<le> cl_conn (sv_heap s p)"
  using assms by (auto simp: registry_ok_def)

lemma registry_okI:
  assumes "finite (dom (sv_clients s))" "dom (sv_conns s) = dom (sv_clients s)"
    and "\<And>i p. sv_clients s i = Some p \<Longrightarrow> p < sv_next s \<and> cl_id (sv_heap s p) = i \<and>
      sv_conns s i = Some (cl_conn (sv_heap s p)) \<and> 1 \<le> cl_conn (sv_heap s p)"
    and "\<And>p. sv_cause s \<noteq> None \<Longrightarrow> p < sv_next s \<Longrightarrow> cl_cause (sv_heap s p) \<noteq> None"
  shows "registry_ok s"
  using assms unfolding registry_ok_def by blast

lemma cancel_not_None [simp]: "cancel e c \<noteq> None"
  by (simp add: cancel_def split: option.splits)

lemma cancel_is_Some [simp]: "\<exists>e'. cancel e c = Some e'"
  by (simp add: cancel_def split: option.splits)

lemma registry_ok_new: "registry_ok (new_server [] writers)"
  by (simp add: registry_ok_def new_server_def)

lemma registry_ok_writer [simp]: "registry_ok (set_writer i w s) = registry_ok s"
  by (simp add: registry_ok_def set_writer_def)

lemma registry_ok_set:
  assumes "registry_ok s" "cl_id c = cl_id (sv_heap s p)" "cl_conn c = cl_conn (sv_heap s p)"
    "cl_cause (sv_heap s p) = None \<or> cl_cause c \<noteq> None"
  shows "registry_ok (set_client p c s)"
  using assms unfolding registry_ok_def set_client_def by (intro conjI) auto

lemma registry_ok_cancel [intro]: "registry_ok s \<Longrightarrow> registry_ok (cancel_client p e s)"
  unfolding cancel_client_def by (rule registry_ok_set) simp_all

lemma registry_ok_seen [intro]:
  "registry_ok s \<Longrightarrow> registry_ok (set_client p ((sv_heap s p)\<lparr>cl_seen := now\<rparr>) s)"
  by (rule registry_ok_set) auto

lemma registry_ok_unregister [intro]: "registry_ok s \<Longrightarrow> registry_ok (unregister i s)"
  by (auto simp: registry_ok_def unregister_def)

lemma registry_ok_join:
  assumes ok: "registry_ok s"
  shows "registry_ok (snd (snd (join_locked now i sm s)))"
proof (cases "sv_clients s i")
  case None
  have "p \<noteq> sv_next s" if "sv_clients s j = Some p" for j p
    using registry_okD(1) [OF ok that] by simp
  then show ?thesis
    using ok None unfolding registry_ok_def join_locked_def by (intro conjI) (auto simp: less_Suc_eq)
next
  case (Some p)
  let ?n = "Suc (cl_conn (sv_heap s p))"
  let ?t = "s\<lparr>sv_conns := (sv_conns s)(i \<mapsto> ?n),
    sv_heap := (sv_heap s)(p := (sv_heap s p)\<lparr>cl_conn := ?n, cl_seen := now, cl_sm := sm\<rparr>)\<rparr>"
  have "registry_ok ?t"
  proof (rule registry_okI)
    show "finite (dom (sv_clients ?t))" using ok by (simp add: registry_ok_def)
    show "dom (sv_conns ?t) = dom (sv_clients ?t)" using ok Some by (auto simp: registry_ok_def)
    show "q < sv_next ?t \<and> cl_id (sv_heap ?t q) = j \<and> sv_conns ?t j = Some (cl_conn (sv_heap ?t q)) \<and>
        1 \<le> cl_conn (sv_heap ?t q)" if "sv_clients ?t j = Some q" for j q
    proof (cases "q = p")
      case True
      then have "j = i" using that registry_okD(2) [OF ok, of j q] registry_okD(2) [OF ok Some] by simp
      with True Some show ?thesis using registry_okD(1,2) [OF ok Some] by simp
    next
      case False
      then have "j \<noteq> i" using that Some by auto
      with False that show ?thesis using registry_okD [OF ok, of j q] by simp
    qed
    show "cl_cause (sv_heap ?t q) \<noteq> None" if "sv_cause ?t \<noteq> None" "q < sv_next ?t" for q
      using ok that by (simp add: registry_ok_def)
  qed
  then show ?thesis
    using Some registry_okD(3) [OF ok Some] by (simp add: join_locked_def set_client_def Let_def)
qed

lemma registry_ok_drop [intro]: "registry_ok s \<Longrightarrow> registry_ok (ka_drop p s)"
  by (simp add: ka_drop_def registry_ok_cancel registry_ok_unregister)

lemma registry_ok_sweep [intro]: "registry_ok s \<Longrightarrow> registry_ok (ka_sweep d s)"
  by (induction d arbitrary: s) (auto simp: ka_sweep_def)

lemma registry_ok_leave [intro]: "registry_ok s \<Longrightarrow> registry_ok (snd (leave i n s))"
  by (auto simp: leave_def split: option.splits)

lemma registry_ok_send [intro]: "registry_ok s \<Longrightarrow> registry_ok (snd (send enc now p ev s))"
  by (simp add: send_def Let_def registry_ok_seen split: option.split prod.split)

lemma registry_ok_shutdown [intro]: "registry_ok s \<Longrightarrow> registry_ok (shutdown s)"
  by (auto simp: registry_ok_def shutdown_def)


lemma registry_ok_joined: "registry_ok s \<Longrightarrow> join_locked now i sm s = (p, fresh, s') \<Longrightarrow> registry_ok s'"
  using registry_ok_join [of s now i sm] by simp

lemma registry_ok_exec: "registry_ok (w_sv w) \<Longrightarrow> registry_ok (w_sv (sse_exec enc rng op w))"
  by (cases op) (auto simp: sse_exec_def Let_def join_finish_def close_client_def
    intro: registry_ok_joined split: sum.split prod.split option.split)

lemma registry_ok_with_timeouts [simp]:
  "registry_ok (fold (\<lambda>opt s. opt s) (map with_client_timeout ds) s) = registry_ok s"
  by (induction ds arbitrary: s) (simp_all add: with_client_timeout_def registry_ok_def)

section \<open>No live client outside the registry\<close>

definition no_orphan :: "server \<Rightarrow> bool" where
  "no_orphan s \<longleftrightarrow>
     (\<forall>p < sv_next s. cl_cause (sv_heap s p) = None \<longrightarrow> sv_clients s (cl_id (sv_heap s p)) = Some p)"

lemma no_orphan_writer [simp]: "no_orphan (set_writer i w s) = no_orphan s"
  by (simp add: no_orphan_def set_writer_def)

lemma no_orphan_set:
  assumes "no_orphan s" "cl_id c = cl_id (sv_heap s p)" "cl_cause (sv_heap s p) = None \<or> cl_cause c \<noteq> None"
  shows "no_orphan (set_client p c s)"
  using assms by (auto simp: no_orphan_def set_client_def)

lemma no_orphan_cancel: "no_orphan s \<Longrightarrow> no_orphan (cancel_client p e s)"
  unfolding cancel_client_def by (rule no_orphan_set) simp_all

lemma no_orphan_seen: "no_orphan s \<Longrightarrow> no_orphan (set_client p ((sv_heap s p)\<lparr>cl_seen := now\<rparr>) s)"
  by (rule no_orphan_set) auto

text \<open>Unregistering an identifier is safe when its client, if there is one, is cancelled with it.\<close>

lemma no_orphan_drop:
  assumes "no_orphan s" "sv_clients s i \<in> {None, Some p}"
  shows "no_orphan (unregister i (cancel_client p e s))"
  using assms by (auto simp: no_orphan_def unregister_def cancel_client_def set_client_def)

lemma unregister_cancel: "cancel_client p e (unregister i s) = unregister i (cancel_client p e s)"
  by (simp add: cancel_client_def set_client_def unregister_def)

lemma no_orphan_leave: "no_orphan s \<Longrightarrow> no_orphan (snd (leave i n s))"
  by (auto simp: leave_def unregister_cancel intro: no_orphan_drop split: option.split)

lemma no_orphan_sweep:
  "no_orphan s \<Longrightarrow> \<forall>p\<in>set d. sv_clients s (cl_id (sv_heap s p)) \<in> {None, Some p} \<Longrightarrow> no_orphan (ka_sweep d s)"
proof (induction d arbitrary: s)
  case (Cons p d)
  have heap: "cl_id (sv_heap (ka_drop p s) q) = cl_id (sv_heap s q)" for q
    by (simp add: ka_drop_def unregister_def cancel_client_def set_client_def)
  have reg: "sv_clients (ka_drop p s) i \<in> {None, sv_clients s i}" for i
    by (simp add: ka_drop_def unregister_def cancel_client_def set_client_def)
  have "no_orphan (ka_drop p s)"
    unfolding ka_drop_def using Cons.prems by (intro no_orphan_drop) auto
  moreover have "\<forall>q\<in>set d. sv_clients (ka_drop p s) (cl_id (sv_heap (ka_drop p s) q)) \<in> {None, Some q}"
  proof
    fix q
    assume "q \<in> set d"
    then have "sv_clients s (cl_id (sv_heap s q)) \<in> {None, Some q}" using Cons.prems(2) by simp
    then show "sv_clients (ka_drop p s) (cl_id (sv_heap (ka_drop p s) q)) \<in> {None, Some q}"
      using reg [of "cl_id (sv_heap s q)"] by (auto simp: heap)
  qed
  ultimately show ?case using Cons.IH by (simp add: ka_sweep_def)
qed (simp add: ka_sweep_def)

lemma ka_dead_registered:
  assumes "registry_ok s" "map_order rng" "p \<in> set (ka_dead rng now s)"
  shows "sv_clients s (cl_id (sv_heap s p)) = Some p"
proof -
  have "set (rng (sv_clients s)) = dom (sv_clients s)"
    using assms(1,2) by (auto simp: registry_ok_def dest: map_orderD)
  with assms(3) obtain i where i: "sv_clients s i = Some p" by (auto simp: ka_dead_def)
  then show ?thesis using registry_okD(2) [OF assms(1) i] by simp
qed

lemma join_locked_again:
  "registry_ok s \<Longrightarrow> sv_clients s i = Some q \<Longrightarrow> join_locked now i sm s =
     (q, False, set_client q ((sv_heap s q)\<lparr>cl_conn := Suc (cl_conn (sv_heap s q)), cl_seen := now, cl_sm := sm\<rparr>)
        (s\<lparr>sv_conns := (sv_conns s)(i \<mapsto> Suc (cl_conn (sv_heap s q)))\<rparr>))"
  using registry_okD(3) [of s i q] by (simp add: join_locked_def Let_def)

lemma no_orphan_join:
  assumes "registry_ok s" "no_orphan s" "join_locked now i sm s = (p, fresh, s')"
  shows "no_orphan s'"
proof (cases "sv_clients s i")
  case None
  then show ?thesis
    using assms by (auto simp: join_locked_def no_orphan_def less_Suc_eq)
next
  case (Some q)
  then show ?thesis
    using assms(2,3) by (auto simp: join_locked_again [OF assms(1) Some] set_client_def no_orphan_def)
qed

lemma no_orphan_shutdown: "registry_ok s \<Longrightarrow> no_orphan (shutdown s)"
  by (auto simp: registry_ok_def no_orphan_def shutdown_def)

lemma no_orphan_exec:
  assumes "map_order rng" "op \<noteq> OSweep" "registry_ok (w_sv w)" "no_orphan (w_sv w)"
  shows "no_orphan (w_sv (sse_exec enc rng op w))"
proof (cases op)
  case (ORound now)
  then show ?thesis
    using ka_dead_registered [OF assms(3,1)] assms(4) by (auto simp: sse_exec_def Let_def intro!: no_orphan_sweep)
next
  case (OSend now p ev)
  then show ?thesis
    using assms(4) by (simp add: sse_exec_def send_def Let_def no_orphan_seen split: option.split prod.split)
qed (use assms in \<open>auto simp: sse_exec_def Let_def join_finish_def close_client_def
    intro: no_orphan_join no_orphan_leave no_orphan_cancel no_orphan_shutdown split: sum.split prod.split\<close>)


section \<open>Connection numbers\<close>

text \<open>
  The interface a handler uses: it enters under an identifier and gets the number of its
  connection, and leaves with it. \<open>cur\<close> is the number the identifier has now. The laws say
  that only the newest number leaves.
\<close>

datatype 'a reg_op = Enter 'a string | Exit string nat

fun abs_run :: "'a reg_op list \<Rightarrow> (string \<Rightarrow> nat option) \<Rightarrow> (string \<Rightarrow> nat option) \<times> (nat + bool) list" where
  "abs_run [] m = (m, [])"
| "abs_run (Enter a i # ops) m =
     (let n = (case m i of None \<Rightarrow> 1 | Some k \<Rightarrow> Suc k); (m', out) = abs_run ops (m(i \<mapsto> n)) in (m', Inl n # out))"
| "abs_run (Exit i n # ops) m =
     (let (m', out) = abs_run ops (if m i = Some n then m(i := None) else m)
      in (m', Inr (m i \<in> {None, Some n}) # out))"

fun reg_run :: "('a \<Rightarrow> string \<Rightarrow> 's \<Rightarrow> nat \<times> 's) \<Rightarrow> (string \<Rightarrow> nat \<Rightarrow> 's \<Rightarrow> bool \<times> 's) \<Rightarrow> 'a reg_op list \<Rightarrow> 's \<Rightarrow>
    's \<times> (nat + bool) list" where
  "reg_run en ex [] s = (s, [])"
| "reg_run en ex (Enter a i # ops) s = (let (n, s1) = en a i s; (s2, out) = reg_run en ex ops s1 in (s2, Inl n # out))"
| "reg_run en ex (Exit i n # ops) s = (let (b, s1) = ex i n s; (s2, out) = reg_run en ex ops s1 in (s2, Inr b # out))"

locale conn_registry =
  fixes ok :: "'s \<Rightarrow> bool"
    and cur :: "'s \<Rightarrow> string \<Rightarrow> nat option"
    and enter :: "'a \<Rightarrow> string \<Rightarrow> 's \<Rightarrow> nat \<times> 's"
    and exit_conn :: "string \<Rightarrow> nat \<Rightarrow> 's \<Rightarrow> bool \<times> 's"
  assumes enter_law: "ok s \<Longrightarrow> enter a i s = (n, s') \<Longrightarrow>
      ok s' \<and> n = (case cur s i of None \<Rightarrow> 1 | Some k \<Rightarrow> Suc k) \<and> cur s' = (cur s)(i \<mapsto> n)"
    and exit_law: "ok s \<Longrightarrow> exit_conn i n s = (b, s') \<Longrightarrow>
      ok s' \<and> b = (cur s i \<in> {None, Some n}) \<and> cur s' = (if cur s i = Some n then (cur s)(i := None) else cur s)"
begin

lemma run_refines:
  "ok s \<Longrightarrow> reg_run enter exit_conn ops s = (s', out) \<Longrightarrow> ok s' \<and> abs_run ops (cur s) = (cur s', out)"
proof (induction ops arbitrary: s s' out)
  case (Cons op ops)
  show ?case
  proof (cases op)
    case (Enter a i)
    obtain n s1 where e: "enter a i s = (n, s1)" by (cases "enter a i s")
    obtain s2 out1 where "reg_run enter exit_conn ops s1 = (s2, out1)" by (cases "reg_run enter exit_conn ops s1")
    with Cons.prems Enter e have r: "reg_run enter exit_conn ops s1 = (s', out1)" "out = Inl n # out1" by simp_all
    from enter_law [OF Cons.prems(1) e] have
      l: "ok s1" "n = (case cur s i of None \<Rightarrow> 1 | Some k \<Rightarrow> Suc k)" "cur s1 = (cur s)(i \<mapsto> n)" by auto
    from Cons.IH [OF l(1) r(1)] have "ok s'" "abs_run ops ((cur s)(i \<mapsto> n)) = (cur s', out1)"
      by (simp_all only: l(3))
    then show ?thesis
      by (simp add: Enter r(2) Let_def flip: l(2))
  next
    case (Exit i n)
    obtain b s1 where e: "exit_conn i n s = (b, s1)" by (cases "exit_conn i n s")
    obtain s2 out1 where "reg_run enter exit_conn ops s1 = (s2, out1)" by (cases "reg_run enter exit_conn ops s1")
    with Cons.prems Exit e have r: "reg_run enter exit_conn ops s1 = (s', out1)" "out = Inr b # out1" by simp_all
    from exit_law [OF Cons.prems(1) e] have
      l: "ok s1" "b = (cur s i \<in> {None, Some n})" "cur s1 = (if cur s i = Some n then (cur s)(i := None) else cur s)" by auto
    from Cons.IH [OF l(1) r(1)] show ?thesis
      using l r(2) by (simp add: Exit Let_def)
  qed
qed simp

text \<open>A connection that has been superseded cannot leave for its successor.\<close>

lemma stale_exit_harmless:
  "ok s \<Longrightarrow> cur s i = Some k \<Longrightarrow> n \<noteq> k \<Longrightarrow> exit_conn i n s = (b, s') \<Longrightarrow> \<not> b \<and> cur s' = cur s"
  using exit_law [of s i n b s'] by auto

end

text \<open>\<open>Join\<close> for a writer that can flush; the data of an entry are the time and the writer.\<close>

definition enter_conn :: "int \<times> nat \<Rightarrow> string \<Rightarrow> server \<Rightarrow> nat \<times> server" where
  "enter_conn a i s =
     (case join (fst a) i (Some (snd a)) s of (Inr (p, n, fresh), s') \<Rightarrow> (n, s') | (Inl e, s') \<Rightarrow> (0, s'))"

definition serving :: "server \<Rightarrow> bool" where
  "serving s \<longleftrightarrow> registry_ok s \<and> (\<forall>i. w_flusher (sv_writers s i))"

lemma stream_headers_flusher [simp]: "w_flusher (stream_headers w) = w_flusher w"
  by (simp add: stream_headers_def http_flush_def Let_def)

lemma join_locked_conns:
  assumes "registry_ok s" "join_locked now i sm s = (p, fresh, s')"
  shows "sv_conns s' = (sv_conns s)(i \<mapsto> (case sv_conns s i of None \<Rightarrow> 1 | Some k \<Rightarrow> Suc k)) \<and>
    sv_conns s' i = Some (cl_conn (sv_heap s' p)) \<and> sv_writers s' = sv_writers s"
proof (cases "sv_clients s i")
  case None
  then have "sv_conns s i = None" using assms(1) by (auto simp: registry_ok_def)
  with None assms(2) show ?thesis by (auto simp: join_locked_def)
next
  case (Some q)
  with assms show ?thesis
    by (auto simp: join_locked_again set_client_def registry_okD(3))
qed

interpretation reg: conn_registry serving sv_conns enter_conn leave
proof
  fix s a i n s'
  assume s: "serving s" and e: "enter_conn a i s = (n, s')"
  obtain p fresh s1 where j: "join_locked (fst a) i (snd a) s = (p, fresh, s1)"
    by (cases "join_locked (fst a) i (snd a) s") auto
  have fl: "w_flusher (sv_writers s (snd a))" and ok: "registry_ok s" using s by (simp_all add: serving_def)
  have "n = cl_conn (sv_heap s1 p)" "s' = set_writer (snd a) (stream_headers (sv_writers s1 (snd a))) s1"
    using e j fl by (simp_all add: enter_conn_def join_def new_streamer_def join_finish_def)
  then show "serving s' \<and> n = (case sv_conns s i of None \<Rightarrow> 1 | Some k \<Rightarrow> Suc k) \<and> sv_conns s' = (sv_conns s)(i \<mapsto> n)"
    using join_locked_conns [OF ok j] registry_ok_joined [OF ok j] s
    by (auto simp: serving_def) (auto simp: set_writer_def)
next
  fix s i n b s'
  assume s: "serving s" and e: "leave i n s = (b, s')"
  have ok: "registry_ok s" using s by (simp add: serving_def)
  have "sv_clients s i = None \<longleftrightarrow> sv_conns s i = None" using ok by (auto simp: registry_ok_def)
  then have "b = (sv_conns s i \<in> {None, Some n}) \<and> sv_conns s' = (if sv_conns s i = Some n then (sv_conns s)(i := None) else sv_conns s)
      \<and> sv_writers s' = sv_writers s"
    using e registry_okD(3) [OF ok, of i]
    by (auto simp: leave_def cancel_client_def set_client_def unregister_def split: option.splits if_splits)
  moreover have "registry_ok s'" using registry_ok_leave [OF ok, of i n] e by simp
  ultimately show "serving s' \<and> b = (sv_conns s i \<in> {None, Some n}) \<and>
      sv_conns s' = (if sv_conns s i = Some n then (sv_conns s)(i := None) else sv_conns s)"
    using s by (simp add: serving_def)
qed

section \<open>The server's context\<close>

lemma cause_kept [simp]:
  "sv_cause (set_client p c s) = sv_cause s" "sv_cause (set_writer i w s) = sv_cause s"
  "sv_cause (unregister k s) = sv_cause s" "sv_cause (cancel_client p e s) = sv_cause s"
  by (simp_all add: set_client_def set_writer_def unregister_def cancel_client_def)

lemma cause_sweep [simp]: "sv_cause (ka_sweep d s) = sv_cause s"
  by (induction d arbitrary: s) (simp_all add: ka_sweep_def ka_drop_def)

lemma cause_leave [simp]: "sv_cause (snd (leave i n s)) = sv_cause s"
  by (simp add: leave_def split: option.split)

lemma cause_send [simp]: "sv_cause (snd (send enc now p ev s)) = sv_cause s"
  by (simp add: send_def Let_def split: option.split prod.split)

lemma cause_join: "join_locked now i sm s = (p, fresh, s') \<Longrightarrow> sv_cause s' = sv_cause s"
  by (auto simp: join_locked_def Let_def split: option.splits)

lemma shutdown_cause: "sv_cause (shutdown s) \<noteq> None"
  by (simp add: shutdown_def)

lemma cause_exec: "sv_cause (w_sv u) \<noteq> None \<Longrightarrow> sv_cause (w_sv (sse_exec enc rng op u)) \<noteq> None"
  by (cases op) (simp_all add: sse_exec_def Let_def join_finish_def close_client_def shutdown_cause cause_join
    del: not_None_eq split: sum.split option.split prod.split)

section \<open>Broadcasting\<close>

text \<open>What sending does to the writer of the client, and that it touches nothing else of it.\<close>

definition delivered :: "encoder \<Rightarrow> sse_event \<Rightarrow> http_rw \<Rightarrow> http_rw" where
  "delivered enc ev w = (case event_write enc stream_write ev w of (w', Some e) \<Rightarrow> w' | (w', None) \<Rightarrow> http_flush w')"

lemma send_dead: "cl_cause (sv_heap s p) = Some e \<Longrightarrow> send enc now p ev s = (Some (new_error (cl_id (sv_heap s p)) e), s)"
  by (simp add: send_def Let_def)

lemma send_live:
  "cl_cause (sv_heap s p) = None \<Longrightarrow> sv_writers (snd (send enc now p ev s)) =
     (sv_writers s)(cl_sm (sv_heap s p) := delivered enc ev (sv_writers s (cl_sm (sv_heap s p))))"
  by (simp add: send_def Let_def delivered_def set_writer_def set_client_def split: prod.split option.split)

lemma send_heap:
  "cl_sm (sv_heap (snd (send enc now p ev s)) q) = cl_sm (sv_heap s q)"
  "cl_cause (sv_heap (snd (send enc now p ev s)) q) = cl_cause (sv_heap s q)"
  by (simp_all add: send_def Let_def set_writer_def set_client_def split: prod.split option.split)

lemma broadcast_task_send: "snd (broadcast_task enc now ev p None s) = snd (send enc now p ev s)"
  by (simp add: broadcast_task_def split: prod.split option.split)

lemma send_all:
  "distinct ps \<Longrightarrow> inj_on (\<lambda>p. cl_sm (sv_heap s p)) (set ps) \<Longrightarrow>
     sv_writers (fold (\<lambda>p s. snd (send enc now p ev s)) ps s) j =
     (if \<exists>p\<in>set ps. cl_cause (sv_heap s p) = None \<and> cl_sm (sv_heap s p) = j
      then delivered enc ev (sv_writers s j) else sv_writers s j)"
proof (induction ps arbitrary: s)
  case (Cons p ps)
  let ?t = "snd (send enc now p ev s)"
  have ih: "sv_writers (fold (\<lambda>p s. snd (send enc now p ev s)) ps ?t) j =
     (if \<exists>q\<in>set ps. cl_cause (sv_heap s q) = None \<and> cl_sm (sv_heap s q) = j
      then delivered enc ev (sv_writers ?t j) else sv_writers ?t j)"
    using Cons.IH [of ?t] Cons.prems by (simp add: send_heap)
  show ?case
  proof (cases "cl_cause (sv_heap s p) = None \<and> cl_sm (sv_heap s p) = j")
    case True
    then have "\<not> (\<exists>q\<in>set ps. cl_cause (sv_heap s q) = None \<and> cl_sm (sv_heap s q) = j)"
      using Cons.prems by (auto simp: inj_on_def)
    with True ih show ?thesis by (simp add: send_live)
  next
    case False
    then have "sv_writers ?t j = sv_writers s j"
      by (cases "cl_cause (sv_heap s p)") (auto simp: send_live send_dead)
    with False ih show ?thesis by auto
  qed
qed simp

text \<open>
  The documented behaviour of \<open>async\<close>: \<open>Wait\<close> runs every task once, in some order; here in a
  context that is not cancelled.
\<close>

definition runs_all :: "(task list \<Rightarrow> server \<Rightarrow> 'r \<times> server) \<Rightarrow> bool" where
  "runs_all wait \<longleftrightarrow> (\<forall>ts s. \<exists>idx. distinct idx \<and> set idx = {..<length ts} \<and>
     snd (wait ts s) = fold (\<lambda>k s. snd ((ts ! k) None s)) idx s)"

definition own_writers :: "server \<Rightarrow> bool" where
  "own_writers s \<longleftrightarrow> (\<forall>i j p q. sv_clients s i = Some p \<longrightarrow> sv_clients s j = Some q \<longrightarrow>
     cl_sm (sv_heap s p) = cl_sm (sv_heap s q) \<longrightarrow> p = q)"

lemma broadcast_writers:
  assumes ok: "registry_ok s" and own: "own_writers s" and rng: "map_order rng" and wait: "runs_all wait"
  shows "sv_writers (snd (broadcast wait rng enc now ev s)) j =
    (if \<exists>i p. sv_clients s i = Some p \<and> cl_cause (sv_heap s p) = None \<and> cl_sm (sv_heap s p) = j
     then delivered enc ev (sv_writers s j) else sv_writers s j)"
proof -
  let ?is = "rng (sv_clients s)" let ?ps = "map (\<lambda>i. the (sv_clients s i)) ?is"
  have "finite (dom (sv_clients s))" using ok by (simp add: registry_ok_def)
  then have r: "distinct ?is" "set ?is = dom (sv_clients s)" using map_orderD [OF rng, of "sv_clients s"] by simp_all
  have "inj_on (\<lambda>i. the (sv_clients s i)) (dom (sv_clients s))"
    using registry_okD(2) [OF ok] by (intro inj_onI) (metis domD option.sel)
  with r have d: "distinct ?ps" by (simp add: distinct_map)
  have ps: "set ?ps = ran (sv_clients s)" using r(2) by (auto simp: ran_def dom_def image_iff) (metis domI option.sel)+
  have ts: "map (\<lambda>i. broadcast_task enc now ev (the (sv_clients s i))) ?is = map (broadcast_task enc now ev) ?ps"
    by simp
  have "\<exists>idx. distinct idx \<and> set idx = {..<length (map (broadcast_task enc now ev) ?ps)} \<and>
      snd (wait (map (broadcast_task enc now ev) ?ps) s) =
      fold (\<lambda>k s. snd ((map (broadcast_task enc now ev) ?ps ! k) None s)) idx s"
    using wait unfolding runs_all_def by (elim allE)
  then obtain idx where idx: "distinct idx" "set idx = {..<length ?ps}"
    "snd (broadcast wait rng enc now ev s) = fold (\<lambda>k s. snd ((map (broadcast_task enc now ev) ?ps ! k) None s)) idx s"
    unfolding broadcast_def ts by auto
  let ?qs = "map ((!) ?ps) idx"
  have "fold (\<lambda>k s. snd ((map (broadcast_task enc now ev) ?ps ! k) None s)) idx s = fold (\<lambda>p s. snd (send enc now p ev s)) ?qs s"
    unfolding fold_map using idx(2) by (intro fold_cong) (auto simp: broadcast_task_send)
  moreover have "set ?qs = set ?ps"
    using nth_image [OF order_refl, of ?ps] by (simp only: set_map idx(2) lessThan_atLeast0 take_all order_refl)
  moreover have "distinct ?qs" using idx d by (simp add: distinct_map inj_on_nth)
  ultimately obtain qs where qs: "set qs = ran (sv_clients s)" "distinct qs"
    "snd (broadcast wait rng enc now ev s) = fold (\<lambda>p s. snd (send enc now p ev s)) qs s"
    using idx(3) ps by metis
  have "inj_on (\<lambda>p. cl_sm (sv_heap s p)) (set qs)"
    using own qs(1) by (auto simp: inj_on_def own_writers_def ran_def)
  moreover have "(\<exists>p\<in>set qs. cl_cause (sv_heap s p) = None \<and> cl_sm (sv_heap s p) = j) \<longleftrightarrow>
      (\<exists>i p. sv_clients s i = Some p \<and> cl_cause (sv_heap s p) = None \<and> cl_sm (sv_heap s p) = j)"
    using qs(1) by (auto simp: ran_def)
  ultimately show ?thesis
    using send_all [of qs s enc now ev j] qs(2,3) by simp
qed

text \<open>A stream that is open for an event: its headers are out, and the connection holds.\<close>

definition open_stream :: "http_rw \<Rightarrow> bool" where
  "open_stream w \<longleftrightarrow> w_status w = Some 200 \<and> \<not> w_head w \<and> w_room w = None"

lemma delivered_text:
  assumes "open_stream w"
  shows "delivered enc (TextEv e) w = w\<lparr>w_body := w_body w @ text_frame e, w_flushes := Suc (w_flushes w)\<rparr>"
proof -
  have "text_frame e \<noteq> []" by (simp add: text_frame_def)
  with assms show ?thesis
    by (simp add: delivered_def event_write_def text_write_def stream_write_def http_write_def open_stream_def
      body_allowed_def http_flush_def Let_def)
qed

section \<open>What handlers can run into\<close>

text \<open>
  Two joins of one identifier that overlap both come back with the later number: it is read
  from the client after the lock is gone, so the older connection can leave for the newer.
\<close>

lemma racing_joins_same_number:
  assumes "registry_ok s" "join_locked t i a s = (p, f, s1)" "join_locked u i b s1 = (q, g, s2)"
  shows "q = p \<and> fst (join_finish p a s2) = fst (join_finish q b s2)"
proof -
  have "sv_clients s1 i = Some p"
    using assms(2) by (auto simp: join_locked_def Let_def set_client_def split: option.splits)
  then show ?thesis
    using assms(3) registry_ok_joined [OF assms(1,2)] by (simp add: join_locked_again join_finish_def)
qed

text \<open>A client that has been closed stays registered, and joining again gives it back, still cancelled.\<close>

lemma join_after_close:
  assumes "registry_ok s" "sv_clients s i = Some p" "join_locked now i sm (close_client p s) = (q, fresh, s')"
  shows "q = p \<and> \<not> fresh \<and> cl_cause (sv_heap s' p) \<noteq> None"
proof -
  have "registry_ok (close_client p s)" using assms(1) by (auto simp: close_client_def)
  moreover have "sv_clients (close_client p s) i = Some p"
    using assms(2) by (simp add: close_client_def cancel_client_def set_client_def)
  ultimately show ?thesis
    using assms(3) by (auto simp: join_locked_again close_client_def cancel_client_def set_client_def)
qed

section \<open>Properties\<close>

text \<open>
  C4: connection numbers. Joining and leaving refine a table of numbers: a new identifier gets
  1, a known one the next number, and only the number handed out last can leave; a superseded
  connection's \<open>Leave\<close> answers false and changes nothing.
\<close>

theorem connection_numbers:
  assumes "registry_ok s" and "\<forall>i. w_flusher (sv_writers s i)" and "reg_run enter_conn leave ops s = (s', out)"
  shows "registry_ok s' \<and> abs_run ops (sv_conns s) = (sv_conns s', out)"
  using reg.run_refines [of s ops s' out] assms by (simp add: serving_def)

text \<open>
  C6: no client is lost. From a new server, whatever the order of joins, sends, leaves,
  closes, shutdowns and keep-alive rounds that are not interrupted, the registry is
  consistent and every client whose context is live is registered under its identifier.
\<close>

theorem live_clients_registered:
  assumes "map_order rng"
    and "sse_reach enc rng (\<lambda>op. op \<noteq> OSweep)
      \<lparr>w_sv = new_server (map with_client_timeout ds) writers, w_joins = [], w_dead = None\<rparr> w"
  shows "registry_ok (w_sv w) \<and> no_orphan (w_sv w)"
proof (rule sse_reach_invariant [OF assms(2)])
  have "no_orphan (fold (\<lambda>opt s. opt s) (map with_client_timeout ds) s) = no_orphan s" for s
    by (induction ds arbitrary: s) (simp_all add: with_client_timeout_def no_orphan_def)
  then show "registry_ok (w_sv \<lparr>w_sv = new_server (map with_client_timeout ds) writers, w_joins = [], w_dead = None\<rparr>) \<and>
      no_orphan (w_sv \<lparr>w_sv = new_server (map with_client_timeout ds) writers, w_joins = [], w_dead = None\<rparr>)"
    using registry_ok_new [of writers] by (simp add: new_server_def no_orphan_def)
qed (use assms(1) registry_ok_exec no_orphan_exec in blast)

text \<open>
  C15: a keep-alive round that a reconnect interrupts loses the client. Between finding it dead
  and dropping it the lock is free; when the client leaves and joins again meanwhile, the
  sweep deletes the new client's entry without cancelling it, so that it is live and can be
  reached by nobody.
\<close>

theorem keepalive_race_loses_client:
  assumes "registry_ok (w_sv w)" and "sv_clients (w_sv w) i = Some p" and "w_dead w = Some [p]"
    and "sv_cause (w_sv w) = None" and "w_flusher (sv_writers (w_sv w) sm)"
    and "w' = fold (sse_exec enc rng) [OLeave i (cl_conn (sv_heap (w_sv w) p)), OJoin now i sm, OSweep] w"
  shows "\<exists>q < sv_next (w_sv w'). cl_id (sv_heap (w_sv w') q) = i \<and> cl_cause (sv_heap (w_sv w') q) = None \<and>
    sv_clients (w_sv w') i = None"
proof -
  let ?s = "w_sv w" let ?q = "sv_next ?s"
  have p: "p < ?q" "cl_id (sv_heap ?s p) = i" using registry_okD [OF assms(1,2)] by simp_all
  have "sv_next (w_sv w') = Suc ?q \<and> cl_id (sv_heap (w_sv w') ?q) = i \<and> cl_cause (sv_heap (w_sv w') ?q) = None \<and>
      sv_clients (w_sv w') i = None"
    using assms(2-5) p by (simp add: assms(6) sse_exec_def Let_def leave_def new_streamer_def join_locked_def
      cancel_client_def set_client_def unregister_def ka_sweep_def ka_drop_def)
  then show ?thesis by auto
qed

text \<open>
  A late \<open>Leave\<close> can throw out a newer client. Numbers start at 1 again once an identifier
  has been dropped, so the handler of a connection that timed out holds the number of the
  client that came after it; its \<open>Leave\<close> succeeds, removes that client and cancels it.
\<close>

theorem stale_leave_evicts:
  assumes "registry_ok s" and "sv_clients s i = None" and "join t i (Some a) s = (Inr (p, n, f), s1)"
    and "join u i (Some b) (ka_sweep [p] s1) = (Inr (q, m, g), s2)" and "leave i n s2 = (ok, s3)"
  shows "q \<noteq> p \<and> ok \<and> get_client i s2 = Some q \<and> get_client i s3 = None \<and> cl_cause (sv_heap s3 q) \<noteq> None"
proof -
  have s1: "p = sv_next s" "n = 1" "sv_clients s1 = (sv_clients s)(i \<mapsto> p)" "sv_next s1 = Suc (sv_next s)" "cl_id (sv_heap s1 p) = i"
    using assms(2,3) by (auto simp: join_def join_locked_def join_finish_def set_writer_def split: sum.splits)
  then have sw: "sv_clients (ka_sweep [p] s1) i = None" "sv_next (ka_sweep [p] s1) = Suc p"
    by (auto simp: ka_sweep_def ka_drop_def unregister_def cancel_client_def set_client_def)
  then have s2: "q = Suc p" "sv_clients s2 i = Some q" "cl_conn (sv_heap s2 q) = 1"
    using assms(4) by (auto simp: join_def join_locked_def join_finish_def set_writer_def split: sum.splits)
  then show ?thesis
    using assms(5) s1(2) by (auto simp: leave_def get_client_def cancel_client_def set_client_def unregister_def)
qed

text \<open>
  C14: shutting down is final. Whatever happens afterwards, every client, of before or
  joined since, has a cancelled context, sending to it fails and writes nothing.
\<close>

theorem shutdown_is_final:
  assumes "registry_ok s" and "sse_reach enc rng P \<lparr>w_sv = shutdown s, w_joins = js, w_dead = d\<rparr> w" and "p < sv_next (w_sv w)"
  shows "\<exists>e. cl_cause (sv_heap (w_sv w) p) = Some e \<and>
    send enc now p ev (w_sv w) = (Some (new_error (cl_id (sv_heap (w_sv w) p)) e), w_sv w)"
proof -
  have "registry_ok (w_sv w) \<and> sv_cause (w_sv w) \<noteq> None"
    using registry_ok_shutdown [OF assms(1)]
    by (intro sse_reach_invariant [OF assms(2), where I = "\<lambda>s. registry_ok s \<and> sv_cause s \<noteq> None"])
      (simp_all add: shutdown_cause registry_ok_exec cause_exec del: not_None_eq)
  with assms(3) obtain e where "cl_cause (sv_heap (w_sv w) p) = Some e" by (auto simp: registry_ok_def)
  then show ?thesis by (simp add: send_dead)
qed


section \<open>Witnesses\<close>

definition open_rw :: http_rw where
  "open_rw = new_http_rw\<lparr>w_status := Some 200\<rparr>"

definition demo_server :: server where
  "demo_server = new_server (map with_client_timeout [5]) (\<lambda>_. open_rw)"

definition demo_joined :: server where
  "demo_joined = snd (snd (join_locked 0 ''a'' 0 demo_server))"

lemma demo_server_ok: "registry_ok demo_server"
  using registry_ok_with_timeouts [of "[5]"] registry_ok_new [of "\<lambda>_. open_rw"]
  by (simp add: demo_server_def new_server_def)

lemma demo_joined_ok: "registry_ok demo_joined"
  unfolding demo_joined_def by (rule registry_ok_join [OF demo_server_ok])

lemmas demo_eval = demo_server_def demo_joined_def new_server_def with_client_timeout_def join_locked_def
  open_rw_def new_http_rw_def Let_def

lemma connection_numbers_witness:
  "\<exists>s'. reg_run enter_conn leave [Enter (0, 0) ''a'', Enter (5, 1) ''a'', Exit ''a'' 1, Exit ''a'' 2] demo_server =
     (s', [Inl 1, Inl 2, Inr False, Inr True])"
proof -
  let ?ops = "[Enter (0, 0) ''a'', Enter (5, 1) ''a'', Exit ''a'' 1, Exit ''a'' 2]"
  obtain s' out where r: "reg_run enter_conn leave ?ops demo_server = (s', out)"
    by (cases "reg_run enter_conn leave ?ops demo_server")
  have "\<forall>i. w_flusher (sv_writers demo_server i)" by (simp add: demo_eval)
  from connection_numbers [OF demo_server_ok this r] have "out = [Inl 1, Inl 2, Inr False, Inr True]"
    by (auto simp: demo_eval numeral_2_eq_2)
  with r show ?thesis by blast
qed

lemma live_clients_registered_witness:
  "\<exists>rng. map_order rng \<and> no_orphan (w_sv (sse_exec (\<lambda>_. Inr []) rng (OJoin 3 ''a'' 0)
     \<lparr>w_sv = new_server (map with_client_timeout [5]) (\<lambda>_. open_rw), w_joins = [], w_dead = None\<rparr>))"
proof -
  obtain rng :: "(string \<Rightarrow> nat option) \<Rightarrow> string list" where rng: "map_order rng" using map_order_exists by blast
  have "no_orphan (w_sv (sse_exec (\<lambda>_. Inr []) rng (OJoin 3 ''a'' 0)
     \<lparr>w_sv = new_server (map with_client_timeout [5]) (\<lambda>_. open_rw), w_joins = [], w_dead = None\<rparr>))"
    by (rule live_clients_registered [OF rng sse_reach.step [OF sse_reach.start], THEN conjunct2]) simp
  with rng show ?thesis by blast
qed

lemma keepalive_race_loses_client_witness:
  "\<exists>w'. w' = fold (sse_exec (\<lambda>_. Inr []) (\<lambda>_. [])) [OLeave ''a'' 1, OJoin 9 ''a'' 1, OSweep]
       \<lparr>w_sv = demo_joined, w_joins = [], w_dead = Some [0]\<rparr> \<and>
     (\<exists>q < sv_next (w_sv w'). cl_id (sv_heap (w_sv w') q) = ''a'' \<and> cl_cause (sv_heap (w_sv w') q) = None \<and>
        sv_clients (w_sv w') ''a'' = None)"
proof -
  let ?w = "\<lparr>w_sv = demo_joined, w_joins = [], w_dead = Some [0]\<rparr>"
  have "sv_clients (w_sv ?w) ''a'' = Some 0" "w_dead ?w = Some [0]" "sv_cause (w_sv ?w) = None"
    "w_flusher (sv_writers (w_sv ?w) 1)" "cl_conn (sv_heap (w_sv ?w) 0) = 1" "registry_ok (w_sv ?w)"
    using demo_joined_ok by (simp_all add: demo_eval)
  then show ?thesis
    using keepalive_race_loses_client [of ?w "''a''" 0 1 _ "\<lambda>_. Inr []" "\<lambda>_. []" 9] by auto
qed

lemma stale_leave_evicts_witness:
  "\<exists>n q m g s1 s2 s3 p f. join 0 ''a'' (Some 0) demo_server = (Inr (p, n, f), s1) \<and>
     join 9 ''a'' (Some 1) (ka_sweep [p] s1) = (Inr (q, m, g), s2) \<and> leave ''a'' n s2 = (True, s3) \<and>
     get_client ''a'' s3 = None \<and> cl_cause (sv_heap s3 q) \<noteq> None"
proof -
  have fl: "w_flusher (sv_writers demo_server 0)" and n: "sv_clients demo_server ''a'' = None" by (simp_all add: demo_eval)
  obtain p n f s1 where j1: "join 0 ''a'' (Some 0) demo_server = (Inr (p, n, f), s1)"
    using fl by (simp add: join_def new_streamer_def join_finish_def split_beta)
  have "w_flusher (sv_writers (ka_sweep [p] s1) 1)"
    using j1 by (auto simp: join_def new_streamer_def join_finish_def set_writer_def ka_sweep_def ka_drop_def unregister_def
      cancel_client_def set_client_def demo_eval)
  then obtain q m g s2 where j2: "join 9 ''a'' (Some 1) (ka_sweep [p] s1) = (Inr (q, m, g), s2)"
    by (simp add: join_def new_streamer_def join_finish_def split_beta)
  obtain ok s3 where l: "leave ''a'' n s2 = (ok, s3)" by (cases "leave ''a'' n s2")
  from stale_leave_evicts [OF demo_server_ok n j1 j2 l] j1 j2 l show ?thesis by auto
qed

lemma shutdown_is_final_witness:
  "\<exists>e. fst (send (\<lambda>_. Inr []) 0 0 PingEv (w_sv \<lparr>w_sv = shutdown demo_joined, w_joins = [], w_dead = None\<rparr>)) = Some e"
proof -
  have "0 < sv_next (w_sv \<lparr>w_sv = shutdown demo_joined, w_joins = [], w_dead = None\<rparr>)" by (simp add: demo_eval shutdown_def)
  from shutdown_is_final [OF demo_joined_ok sse_reach.start this, of "\<lambda>_. Inr []" 0 PingEv] show ?thesis by auto
qed

lemma runs_all_example: "runs_all (\<lambda>ts s. ((), fold (\<lambda>t s. snd (t None s)) ts s))"
proof -
  have "fold (\<lambda>t s. snd (t None s)) ts s = fold (\<lambda>k s. snd ((ts ! k) None s)) [0..<length ts] s" for ts :: "task list" and s
    using fold_map [of "\<lambda>t s. snd (t None s)" "(!) ts" "[0..<length ts]"] by (simp add: map_nth o_def)
  then show ?thesis unfolding runs_all_def
    by (intro allI exI [of _ "[0..<length _]"] conjI) (auto simp: lessThan_atLeast0)
qed


end
