(* ===== verification/IpNet.thy ===== *)
theory IpNet
  imports Prelude
begin

unbundle bit_operations_syntax

text \<open>
  Addresses and networks of the package \<open>net\<close> as the access control list uses them:
  \<open>SplitHostPort\<close>, \<open>ParseIP\<close>, \<open>ParseCIDR\<close>, \<open>CIDRMask\<close>, \<open>IPNet.Contains\<close>, and
  \<open>ParseIPNet\<close> and \<open>contains\<close> of \<open>ext/acl/helper.go\<close>.

  A \<open>net.IP\<close> of 16 bytes is a 128-bit word; an IPv4 address is the word with the prefix
  \<open>::ffff\<close>, which \<open>To4\<close> recognises. A zone, which both parsers refuse, is not parsed.
\<close>

section \<open>Host and port\<close>

definition last_index_byte :: "string \<Rightarrow> char \<Rightarrow> nat option" where
  "last_index_byte s c = map_option (\<lambda>i. length s - Suc i) (index_byte (rev s) c)"

text \<open>The host of \<open>net.SplitHostPort\<close>, unless it returns an error.\<close>

definition split_host_port :: "string \<Rightarrow> string option" where
  "split_host_port s =
     (case last_index_byte s CHR '':'' of
        None \<Rightarrow> None
      | Some i \<Rightarrow>
          if hd s = CHR ''[''
          then (case index_byte s CHR '']'' of
                  None \<Rightarrow> None
                | Some e \<Rightarrow>
                    if Suc e = i \<and> CHR ''['' \<notin> set (drop 1 s) \<and> CHR '']'' \<notin> set (drop (Suc e) s)
                    then Some (drop 1 (take e s)) else None)
          else if CHR '':'' \<in> set (take i s) \<or> CHR ''['' \<in> set s \<or> CHR '']'' \<in> set s then None
          else Some (take i s))"

section \<open>Addresses\<close>

type_synonym ip = "128 word"

definition ip_of_v4 :: "32 word \<Rightarrow> ip" where
  "ip_of_v4 a = word_of_nat (0xFFFF * 2 ^ 32 + unat a)"

text \<open>\<open>IP.To4\<close>\<close>

definition to4 :: "ip \<Rightarrow> 32 word option" where
  "to4 w = (if drop_bit 32 w = 0xFFFF then Some (word_of_nat (unat w mod 2 ^ 32)) else None)"

text \<open>\<open>parseIPv4Fields\<close>: four decimal fields of at most 255 without leading zeros.\<close>

definition v4_field :: "string \<Rightarrow> nat option" where
  "v4_field f =
     (if f = [] \<or> \<not> list_all is_digit f \<or> (1 < length f \<and> hd f = CHR ''0'') \<or> 255 < dec_val f
      then None else Some (dec_val f))"

definition parse_v4 :: "string \<Rightarrow> 32 word option" where
  "parse_v4 s =
     (case map v4_field (go_split s CHR ''.'') of
        [Some a, Some b, Some c, Some d] \<Rightarrow> Some (word_of_nat (((a * 256 + b) * 256 + c) * 256 + d))
      | _ \<Rightarrow> None)"

definition hex_val :: "char \<Rightarrow> nat option" where
  "hex_val c =
     (let b = byte_of c
      in if 48 \<le> b \<and> b \<le> 57 then Some (b - 48)
         else if 97 \<le> b \<and> b \<le> 102 then Some (b - 87)
         else if 65 \<le> b \<and> b \<le> 70 then Some (b - 55)
         else None)"

definition hex_digits :: "string \<Rightarrow> nat" where
  "hex_digits ds = foldl (\<lambda>a c. 16 * a + the (hex_val c)) 0 ds"

text \<open>
  \<open>parseIPv6\<close> after a leading ellipsis: \<open>gs\<close> are the 16-bit groups read so far, \<open>el\<close> the
  number of them before the ellipsis. It gives the groups and the ellipsis.
\<close>

definition v4_groups :: "32 word \<Rightarrow> nat list" where
  "v4_groups a = [unat a div 65536, unat a mod 65536]"

function v6_groups :: "nat list \<Rightarrow> nat option \<Rightarrow> string \<Rightarrow> (nat list \<times> nat option) option" where
  "v6_groups gs el s =
     (if 8 \<le> length gs then (if s = [] then Some (gs, el) else None)
      else (let ds = takeWhile (\<lambda>c. hex_val c \<noteq> None) s; r = dropWhile (\<lambda>c. hex_val c \<noteq> None) s
            in if ds = [] \<or> 4 < length ds then None
               else (case r of
                       [] \<Rightarrow> Some (gs @ [hex_digits ds], el)
                     | c # r1 \<Rightarrow>
                         if c = CHR ''.''
                         then (if (el = None \<and> length gs \<noteq> 6) \<or> 6 < length gs then None
                               else (case parse_v4 s of None \<Rightarrow> None | Some a \<Rightarrow> Some (gs @ v4_groups a, el)))
                         else if c \<noteq> CHR '':'' \<or> r1 = [] then None
                         else if hd r1 = CHR '':''
                         then (if el \<noteq> None then None
                               else if tl r1 = [] then Some (gs @ [hex_digits ds], Some (Suc (length gs)))
                               else v6_groups (gs @ [hex_digits ds]) (Some (Suc (length gs))) (tl r1))
                         else v6_groups (gs @ [hex_digits ds]) el r1)))"
  by pat_completeness auto

termination
  by (relation "measure (\<lambda>(gs, el, s). 8 - length gs)") auto

declare v6_groups.simps [simp del]

definition parse_v6 :: "string \<Rightarrow> ip option" where
  "parse_v6 s =
     (case (if has_prefix s ''::'' then (if drop 2 s = [] then Some ([], Some 0) else v6_groups [] (Some 0) (drop 2 s))
            else v6_groups [] None s) of
        None \<Rightarrow> None
      | Some (gs, el) \<Rightarrow>
          if length gs < 8
          then (case el of
                  None \<Rightarrow> None
                | Some e \<Rightarrow> Some (word_of_nat (foldl (\<lambda>a g. 65536 * a + g) 0
                              (take e gs @ replicate (8 - length gs) 0 @ drop e gs))))
          else if el \<noteq> None then None
          else Some (word_of_nat (foldl (\<lambda>a g. 65536 * a + g) 0 gs)))"

text \<open>
  \<open>netip.ParseAddr\<close> looks at the first byte that decides the family. It gives the address
  and the number of its bits.
\<close>

fun addr_kind :: "string \<Rightarrow> char option" where
  "addr_kind [] = None"
| "addr_kind (c # s) = (if c \<in> {CHR ''.'', CHR '':'', CHR ''%''} then Some c else addr_kind s)"

definition parse_addr :: "string \<Rightarrow> (ip \<times> nat) option" where
  "parse_addr s =
     (case addr_kind s of
        None \<Rightarrow> None
      | Some c \<Rightarrow>
          if CHR ''%'' \<in> set s then None
          else if c = CHR ''.'' then map_option (\<lambda>a. (ip_of_v4 a, 32)) (parse_v4 s)
          else map_option (\<lambda>w. (w, 128)) (parse_v6 s))"

definition parse_ip :: "string \<Rightarrow> ip option" where
  "parse_ip s = map_option fst (parse_addr s)"

section \<open>Networks\<close>

text \<open>An \<open>IPNet\<close> whose address has 4 bytes, or 16, with the length of its mask.\<close>

datatype ip_net = Net4 "32 word" nat | Net16 ip nat

definition mask4 :: "nat \<Rightarrow> 32 word" where "mask4 n = NOT (mask (32 - n))"
definition mask16 :: "nat \<Rightarrow> ip" where "mask16 n = NOT (mask (128 - n))"

definition parse_cidr :: "string \<Rightarrow> ip_net option" where
  "parse_cidr s =
     (case index_byte s CHR ''/'' of
        None \<Rightarrow> None
      | Some i \<Rightarrow>
          let ds = drop (Suc i) s
          in (case parse_addr (take i s) of
                None \<Rightarrow> None
              | Some (w, bits) \<Rightarrow>
                  if ds = [] \<or> \<not> list_all is_digit ds \<or> bits < dec_val ds then None
                  else (case (bits = 32, to4 w) of
                          (True, Some a) \<Rightarrow> Some (Net4 (a AND mask4 (dec_val ds)) (dec_val ds))
                        | _ \<Rightarrow> Some (Net16 (w AND mask16 (dec_val ds)) (dec_val ds)))))"

text \<open>\<open>ParseIPNet\<close>: a network, or a single address with all the bits of its 16 bytes.\<close>

definition parse_ip_net :: "string \<Rightarrow> ip_net option" where
  "parse_ip_net s =
     (case parse_cidr s of
        Some n \<Rightarrow> Some n
      | None \<Rightarrow> (case parse_ip s of None \<Rightarrow> None | Some w \<Rightarrow> Some (Net16 (w AND mask16 128) 128)))"

text \<open>\<open>IPNet.Contains\<close>, with the four cases of \<open>networkNumberAndMask\<close>.\<close>

definition net_contains :: "ip_net \<Rightarrow> ip \<Rightarrow> bool" where
  "net_contains n w =
     (case n of
        Net4 a k \<Rightarrow> (case to4 w of None \<Rightarrow> False | Some x \<Rightarrow> a AND mask4 k = x AND mask4 k)
      | Net16 b k \<Rightarrow>
          (case to4 b of
             Some a \<Rightarrow> (case to4 w of None \<Rightarrow> False | Some x \<Rightarrow> a AND mask4 (k - 96) = x AND mask4 (k - 96))
           | None \<Rightarrow> (case to4 w of None \<Rightarrow> b AND mask16 k = w AND mask16 k | Some x \<Rightarrow> False)))"

fun nets_contain :: "ip \<Rightarrow> ip_net list \<Rightarrow> bool" where
  "nets_contain w [] = False"
| "nets_contain w (n # ns) = (if net_contains n w then True else nets_contain w ns)"

section \<open>Masks are prefixes\<close>

lemma masked_eq_iff:
  "(a :: 'a::len word) AND NOT (mask m) = b AND NOT (mask m) \<longleftrightarrow> drop_bit m a = drop_bit m b"
proof
  assume e: "a AND NOT (mask m) = b AND NOT (mask m)"
  show "drop_bit m a = drop_bit m b"
  proof (rule bit_word_eqI)
    fix n
    have "bit (a AND NOT (mask m)) (m + n) = bit (b AND NOT (mask m)) (m + n)" by (simp only: e)
    then show "bit (drop_bit m a) n = bit (drop_bit m b) n"
      using bit_imp_le_length [of a "m + n"] bit_imp_le_length [of b "m + n"]
      by (auto simp: bit_simps)
  qed
next
  assume e: "drop_bit m a = drop_bit m b"
  show "a AND NOT (mask m) = b AND NOT (mask m)"
  proof (rule bit_word_eqI)
    fix n
    assume "n < LENGTH('a)"
    have "m \<le> n \<Longrightarrow> bit (drop_bit m a) (n - m) = bit (drop_bit m b) (n - m)" by (simp only: e)
    then show "bit (a AND NOT (mask m)) n = bit (b AND NOT (mask m)) n"
      by (cases "m \<le> n") (auto simp: bit_simps)
  qed
qed

lemma masked_eq_div:
  "(a :: 'a::len word) AND NOT (mask m) = b AND NOT (mask m) \<longleftrightarrow> unat a div 2 ^ m = unat b div 2 ^ m"
proof -
  have "drop_bit m a = drop_bit m b \<longleftrightarrow> unat (drop_bit m a) = unat (drop_bit m b)" by (rule word_unat_eq_iff)
  then show ?thesis by (simp only: masked_eq_iff unat_drop_bit_eq drop_bit_eq_div [where 'a = nat])
qed

lemma masked_idem: "(a AND NOT (mask m)) AND NOT (mask m) = (a :: 'a::len word) AND NOT (mask m)"
  by (simp add: and.assoc)

lemma masked_div: "unat (a AND NOT (mask m)) div 2 ^ m = unat (a :: 'a::len word) div 2 ^ m"
  using masked_idem [of a m] by (simp only: masked_eq_div)

section \<open>IPv4 addresses in their 16 bytes\<close>

lemma unat_ip_of_v4: "unat (ip_of_v4 a) = 0xFFFF * 2 ^ 32 + unat a"
proof -
  have "unat a < 2 ^ 32" using unsigned_less [of a, where 'a = nat] by simp
  then have "0xFFFF * 2 ^ 32 + unat a < 2 ^ 128" by simp
  then show ?thesis unfolding ip_of_v4_def by (simp only: unat_of_nat take_bit_eq_mod len_of_numeral_defs) simp
qed

lemma to4_ip_of_v4 [simp]: "to4 (ip_of_v4 a) = Some a"
proof -
  have lt: "unat a < 2 ^ 32" using unsigned_less [of a, where 'a = nat] by simp
  have "unat (drop_bit 32 (ip_of_v4 a)) = 0xFFFF"
    using lt by (simp only: unat_drop_bit_eq drop_bit_eq_div [where 'a = nat] unat_ip_of_v4) simp
  then have "drop_bit 32 (ip_of_v4 a) = 0xFFFF" by (simp add: word_unat_eq_iff)
  moreover have "unat (ip_of_v4 a) mod 2 ^ 32 = unat a"
    using lt by (simp only: unat_ip_of_v4 mod_mult_self3 mod_less)
  ultimately show ?thesis by (simp add: to4_def)
qed

section \<open>Writing IPv4 addresses\<close>

definition show_v4 :: "nat \<Rightarrow> nat \<Rightarrow> nat \<Rightarrow> nat \<Rightarrow> string" where
  "show_v4 a b c d = go_join (map dec_digits [a, b, c, d]) ''.''"

definition v4_addr :: "nat \<Rightarrow> nat \<Rightarrow> nat \<Rightarrow> nat \<Rightarrow> nat" where
  "v4_addr a b c d = ((a * 256 + b) * 256 + c) * 256 + d"

lemma hd_dec_digits: "0 < n \<Longrightarrow> hd (dec_digits n) \<noteq> CHR ''0''"
proof (induction n rule: dec_digits.induct)
  case (1 n)
  show ?case
  proof (cases "n < 10")
    case True
    with "1.prems" have "byte_of (digit n) \<noteq> byte_of (CHR ''0'')" by (simp add: digit_def byte_of_def)
    with True show ?thesis by (subst dec_digits.simps) auto
  next
    case False
    with "1.IH" show ?thesis by (subst dec_digits.simps) simp
  qed
qed

lemma v4_field_digits: "n \<le> 255 \<Longrightarrow> v4_field (dec_digits n) = Some n"
proof -
  assume n: "n \<le> 255"
  have "length (dec_digits 0) = 1" by (subst dec_digits.simps) simp
  then have "\<not> (1 < length (dec_digits n) \<and> hd (dec_digits n) = CHR ''0'')"
    using hd_dec_digits [of n] by (cases "n = 0") auto
  with n show ?thesis by (auto simp: v4_field_def dec_val_digits dec_digits_digits)
qed

lemma digits_not_in:
  "\<not> is_digit c \<Longrightarrow> c \<notin> set (dec_digits n)"
  using dec_digits_digits [of n] by (auto simp: list_all_iff)

lemma not_is_digit [simp]:
  "\<not> is_digit CHR ''.''" "\<not> is_digit CHR '':''" "\<not> is_digit CHR ''%''" "\<not> is_digit CHR ''/''"
  by (simp_all add: is_digit_def byte_of_def)

lemma parse_v4_show:
  assumes "a \<le> 255" "b \<le> 255" "c \<le> 255" "d \<le> 255"
  shows "parse_v4 (show_v4 a b c d) = Some (word_of_nat (v4_addr a b c d))"
proof -
  have "go_split (show_v4 a b c d) CHR ''.'' = map dec_digits [a, b, c, d]"
    unfolding show_v4_def by (rule go_split_join) (auto simp: digits_not_in)
  with assms show ?thesis by (simp add: parse_v4_def v4_field_digits v4_addr_def)
qed

lemma set_show_v4: "x \<in> set (show_v4 a b c d) \<Longrightarrow> is_digit x \<or> x = CHR ''.''"
  using digits_not_in by (auto simp: show_v4_def)

lemma addr_kind_append: "CHR ''.'' \<notin> set s \<Longrightarrow> CHR '':'' \<notin> set s \<Longrightarrow> CHR ''%'' \<notin> set s \<Longrightarrow>
    addr_kind (s @ c # t) = (if c \<in> {CHR ''.'', CHR '':'', CHR ''%''} then Some c else addr_kind t)"
  by (induction s) auto

lemma parse_addr_show:
  assumes "a \<le> 255" "b \<le> 255" "c \<le> 255" "d \<le> 255"
  shows "parse_addr (show_v4 a b c d) = Some (ip_of_v4 (word_of_nat (v4_addr a b c d)), 32)"
proof -
  have "addr_kind (show_v4 a b c d) = Some CHR ''.''"
    using addr_kind_append [of "dec_digits a" "CHR ''.''"] by (simp add: show_v4_def digits_not_in)
  moreover have "CHR ''%'' \<notin> set (show_v4 a b c d)" using set_show_v4 [of "CHR ''%''"] by auto
  ultimately show ?thesis using parse_v4_show [OF assms] by (simp add: parse_addr_def)
qed

lemma v4_addr_less: "a \<le> 255 \<Longrightarrow> b \<le> 255 \<Longrightarrow> c \<le> 255 \<Longrightarrow> d \<le> 255 \<Longrightarrow> v4_addr a b c d < 2 ^ 32"
  by (simp add: v4_addr_def)

lemma parse_ip_show:
  "a \<le> 255 \<Longrightarrow> b \<le> 255 \<Longrightarrow> c \<le> 255 \<Longrightarrow> d \<le> 255 \<Longrightarrow>
     parse_ip (show_v4 a b c d) = Some (ip_of_v4 (word_of_nat (v4_addr a b c d)))"
  by (simp add: parse_ip_def parse_addr_show)

lemma parse_net_show:
  assumes "a \<le> 255" "b \<le> 255" "c \<le> 255" "d \<le> 255" "n \<le> 32"
  shows "parse_ip_net (show_v4 a b c d @ CHR ''/'' # dec_digits n) =
    Some (Net4 (word_of_nat (v4_addr a b c d) AND mask4 n) n)"
proof -
  have "CHR ''/'' \<notin> set (show_v4 a b c d)" using set_show_v4 [of "CHR ''/''"] by auto
  then have "index_byte (show_v4 a b c d @ CHR ''/'' # dec_digits n) CHR ''/'' = Some (length (show_v4 a b c d))"
    by (rule index_byte_append_Cons)
  with assms show ?thesis
    by (simp add: parse_ip_net_def parse_cidr_def parse_addr_show dec_val_digits dec_digits_digits Let_def)
qed

lemma parse_single_show:
  assumes "a \<le> 255" "b \<le> 255" "c \<le> 255" "d \<le> 255"
  shows "parse_ip_net (show_v4 a b c d) = Some (Net16 (ip_of_v4 (word_of_nat (v4_addr a b c d))) 128)"
proof -
  have "CHR ''/'' \<notin> set (show_v4 a b c d)" using set_show_v4 [of "CHR ''/''"] by auto
  then have "parse_cidr (show_v4 a b c d) = None" by (simp add: parse_cidr_def index_byte_None_iff [THEN iffD2])
  then show ?thesis using parse_ip_show [OF assms] by (simp add: parse_ip_net_def mask16_def)
qed

lemma unat_v4_addr:
  "a \<le> 255 \<Longrightarrow> b \<le> 255 \<Longrightarrow> c \<le> 255 \<Longrightarrow> d \<le> 255 \<Longrightarrow>
     unat (word_of_nat (v4_addr a b c d) :: 32 word) = v4_addr a b c d"
  using v4_addr_less [of a b c d] by (simp add: unat_of_nat take_bit_eq_mod)

section \<open>Properties\<close>


text \<open>The same for a network of 16 bytes outside IPv4.\<close>

lemma ipv6_net_contains:
  assumes "to4 (b AND mask16 k) = None"
  shows "net_contains (Net16 (b AND mask16 k) k) w \<longleftrightarrow>
    to4 w = None \<and> unat w div 2 ^ (128 - k) = unat b div 2 ^ (128 - k)"
  using assms by (cases "to4 w") (auto simp: net_contains_def mask16_def masked_eq_div masked_div)


end
