(* ===== verification/Acl.thy ===== *)
theory Acl
  imports IpNet Viewers
begin

text \<open>
  The access control list, \<open>ext/acl\<close>: its options (\<open>option.go\<close>), the configuration file
  (\<open>config.go\<close>), the reloading (\<open>watcher.go\<close>) and the middleware (\<open>acl.go\<close>, \<open>helper.go\<close>).

  Parameters: \<open>url_norm\<close> is \<open>url.Parse\<close> followed by \<open>String\<close>, \<open>open_file\<close> the content of a
  file, \<open>stat\<close> its modification time; the model a rejected visitor's view gets is turned into
  a value of type \<open>any\<close> by \<open>as_any\<close>.
\<close>

section \<open>Options\<close>

record country_rule =
  cr_items :: "string set"
  cr_any :: bool

definition country_has :: "country_rule \<Rightarrow> string \<Rightarrow> bool" where
  "country_has cr name \<longleftrightarrow> (if cr_any cr then True else name \<in> cr_items cr)"

record acl_opts =
  ao_hosts :: "string set"
  ao_url :: string
  ao_code :: int
  ao_whitelist :: "string list"
  ao_allow :: "ip_net list"
  ao_deny :: "ip_net list"
  ao_allow_c :: country_rule
  ao_deny_c :: country_rule
  ao_lookup :: "(string \<Rightarrow> string) option"
  ao_viewer :: string
  ao_config :: string

definition new_options :: acl_opts where
  "new_options =
     \<lparr>ao_hosts = {}, ao_url = [], ao_code = 302, ao_whitelist = [], ao_allow = [], ao_deny = [],
      ao_allow_c = \<lparr>cr_items = {}, cr_any = False\<rparr>, ao_deny_c = \<lparr>cr_items = {}, cr_any = False\<rparr>,
      ao_lookup = None, ao_viewer = [], ao_config = []\<rparr>"

type_synonym acl_option = "acl_opts \<Rightarrow> acl_opts"

definition allow_hosts :: "string list \<Rightarrow> acl_option" where
  "allow_hosts hs o1 = fold (\<lambda>h x. x\<lparr>ao_hosts := insert (to_lower h) (ao_hosts x)\<rparr>) hs o1"

definition all_ipv4 :: ip_net where "all_ipv4 = Net4 0 0"
definition all_ipv6 :: ip_net where "all_ipv6 = Net16 0 0"

text \<open>The networks one entry stands for: all of them, one, or none when it does not parse.\<close>

definition entry_nets :: "string \<Rightarrow> ip_net list" where
  "entry_nets n =
     (if n = ''*'' then [all_ipv4, all_ipv6] else (case parse_ip_net n of None \<Rightarrow> [] | Some x \<Rightarrow> [x]))"

definition allow_ip_nets :: "string list \<Rightarrow> acl_option" where
  "allow_ip_nets ns o1 = fold (\<lambda>n x. x\<lparr>ao_allow := ao_allow x @ entry_nets n\<rparr>) ns o1"

definition deny_ip_nets :: "string list \<Rightarrow> acl_option" where
  "deny_ip_nets ns o1 = fold (\<lambda>n x. x\<lparr>ao_deny := ao_deny x @ entry_nets n\<rparr>) ns o1"

definition add_country :: "string \<Rightarrow> country_rule \<Rightarrow> country_rule" where
  "add_country c cr = cr\<lparr>cr_items := insert c (cr_items cr), cr_any := (c = ''*'' \<or> cr_any cr)\<rparr>"

definition allow_countries :: "string list \<Rightarrow> acl_option" where
  "allow_countries cs o1 = fold (\<lambda>c x. x\<lparr>ao_allow_c := add_country c (ao_allow_c x)\<rparr>) cs o1"

definition deny_countries :: "string list \<Rightarrow> acl_option" where
  "deny_countries cs o1 = fold (\<lambda>c x. x\<lparr>ao_deny_c := add_country c (ao_deny_c x)\<rparr>) cs o1"

definition with_lookup_func :: "(string \<Rightarrow> string) \<Rightarrow> acl_option" where
  "with_lookup_func f o1 = o1\<lparr>ao_lookup := Some f\<rparr>"

definition with_acl_viewer :: "string \<Rightarrow> acl_option" where
  "with_acl_viewer v o1 = o1\<lparr>ao_viewer := v\<rparr>"

type_synonym url_normaliser = "string \<Rightarrow> string option"

definition with_host_redirect :: "url_normaliser \<Rightarrow> string \<Rightarrow> int \<Rightarrow> acl_option" where
  "with_host_redirect url_norm u code o1 =
     (case url_norm u of None \<Rightarrow> o1 | Some v \<Rightarrow> o1\<lparr>ao_url := v, ao_code := code\<rparr>)"

definition with_host_whitelist :: "string list \<Rightarrow> acl_option" where
  "with_host_whitelist ps o1 = o1\<lparr>ao_whitelist := ao_whitelist o1 @ ps\<rparr>"

section \<open>The configuration file\<close>

datatype acl_section = SectionNA | SectionAH | SectionAN | SectionDN | SectionAC | SectionDC | SectionWL

text \<open>
  \<open>bufio.Scanner\<close> by lines: a carriage return at the end of a line is dropped, and a line
  that does not fit into 64 kB ends the scan.
\<close>

definition drop_cr :: "string \<Rightarrow> string" where
  "drop_cr l = (if l \<noteq> [] \<and> last l = CR then butlast l else l)"

definition max_line :: nat where "max_line = 65535"

definition scan_lines :: "string \<Rightarrow> string list" where
  "scan_lines s =
     (let ls = go_split s LF; ls' = (if last ls = [] then butlast ls else ls)
      in map drop_cr (takeWhile (\<lambda>l. length l \<le> max_line) ls'))"

text \<open>\<open>loadLine\<close>: the next line that is not empty and no comment, without its spaces.\<close>

fun load_line :: "string list \<Rightarrow> (string \<times> string list) option" where
  "load_line [] = None"
| "load_line (t # ls) =
     (let l = replace_byte t SP []
      in if l = [] then load_line ls
         else if has_prefix l ''#'' \<or> has_prefix l '';'' then load_line ls
         else Some (l, ls))"

lemma load_line_shorter: "load_line ls = Some (l, rest) \<Longrightarrow> length rest < length ls"
  by (induction ls) (auto simp: Let_def less_SucI split: if_splits)

definition redirect_line :: "url_normaliser \<Rightarrow> string \<Rightarrow> acl_option" where
  "redirect_line url_norm l o1 =
     (if has_prefix l ''url=''
      then (case url_norm (drop 4 l) of None \<Rightarrow> o1 | Some u \<Rightarrow> o1\<lparr>ao_url := u\<rparr>)
      else if has_prefix l ''status_code='' then o1\<lparr>ao_code := fst (atoi (drop 12 l))\<rparr>
      else o1)"

text \<open>\<open>loadHostRedirect\<close>: up to the next section, whose header it gives, or the end.\<close>

function load_host_redirect :: "url_normaliser \<Rightarrow> string list \<Rightarrow> acl_opts \<Rightarrow> string \<times> string list \<times> acl_opts" where
  "load_host_redirect url_norm ls o1 =
     (case load_line ls of
        None \<Rightarrow> ([], [], o1)
      | Some (l, rest) \<Rightarrow>
          if \<not> has_prefix l ''url='' \<and> \<not> has_prefix l ''status_code='' \<and> has_prefix l ''['' then (l, rest, o1)
          else load_host_redirect url_norm rest (redirect_line url_norm l o1))"
  by pat_completeness auto

termination
  by (relation "measure (\<lambda>(u, ls, o1). length ls)") (auto dest: load_line_shorter)

declare load_host_redirect.simps [simp del]

definition section_of :: "string \<Rightarrow> acl_section option" where
  "section_of l =
     (if l = ''[allow_hosts]'' then Some SectionAH
      else if l = ''[allow_ipnets]'' then Some SectionAN
      else if l = ''[deny_ipnets]'' then Some SectionDN
      else if l = ''[allow_countries]'' then Some SectionAC
      else if l = ''[deny_countries]'' then Some SectionDC
      else if l = ''[host_whitelist]'' then Some SectionWL
      else None)"

fun load_entry :: "acl_section \<Rightarrow> string \<Rightarrow> acl_option" where
  "load_entry SectionNA l = (\<lambda>x. x)"
| "load_entry SectionAH l = allow_hosts [l]"
| "load_entry SectionAN l = allow_ip_nets [l]"
| "load_entry SectionDN l = deny_ip_nets [l]"
| "load_entry SectionAC l = allow_countries [l]"
| "load_entry SectionDC l = deny_countries [l]"
| "load_entry SectionWL l = with_host_whitelist [l]"

lemma load_host_redirect_shorter:
  "load_host_redirect u ls o1 = (l, rest, o2) \<Longrightarrow> length rest \<le> length ls"
proof (induction u ls o1 rule: load_host_redirect.induct)
  case (1 u ls o1)
  show ?case
  proof (cases "load_line ls")
    case None
    with "1.prems" show ?thesis by (subst (asm) load_host_redirect.simps) simp
  next
    case (Some a)
    then obtain x r where a: "load_line ls = Some (x, r)" by (cases a) auto
    from load_line_shorter [OF a] have le: "length r \<le> length ls" by simp
    show ?thesis
    proof (cases "\<not> has_prefix x ''url='' \<and> \<not> has_prefix x ''status_code='' \<and> has_prefix x ''[''")
      case True
      with a le "1.prems" show ?thesis by (subst (asm) load_host_redirect.simps) simp
    next
      case False
      have "load_host_redirect u r (redirect_line u x o1) = (l, rest, o2)"
        using "1.prems" a False by (subst (asm) load_host_redirect.simps) (simp split: if_splits)
      from "1.IH" [OF a refl False this] le show ?thesis by simp
    qed
  qed
qed

text \<open>The loop of \<open>loadOptions\<close>.\<close>

function load_loop :: "url_normaliser \<Rightarrow> acl_section \<Rightarrow> string list \<Rightarrow> acl_opts \<Rightarrow> acl_opts" where
  "load_loop url_norm sec ls o1 =
     (case load_line ls of
        None \<Rightarrow> o1
      | Some (l, rest) \<Rightarrow>
          (let (sec1, l1, rest1, o2) =
             (if l = ''[host_redirect]''
              then (case load_host_redirect url_norm rest o1 of (l', r', o') \<Rightarrow> (SectionNA, l', r', o'))
              else (sec, l, rest, o1))
           in (case section_of l1 of
                 Some s \<Rightarrow> load_loop url_norm s rest1 o2
               | None \<Rightarrow> load_loop url_norm sec1 rest1 (load_entry sec1 l1 o2))))"
  by pat_completeness auto

termination
  by (relation "measure (\<lambda>(u, sec, ls, o1). length ls)")
    (auto dest!: load_line_shorter dest: load_host_redirect_shorter [OF sym] split: if_splits prod.splits)

declare load_loop.simps [simp del]

definition load_options :: "url_normaliser \<Rightarrow> (string \<Rightarrow> string option) \<Rightarrow> string \<Rightarrow> acl_opts \<Rightarrow> bool \<times> acl_opts" where
  "load_options url_norm open_file f o1 =
     (case open_file f of
        None \<Rightarrow> (False, o1)
      | Some content \<Rightarrow> (True, load_loop url_norm SectionNA (scan_lines content) o1))"

definition with_config :: "url_normaliser \<Rightarrow> (string \<Rightarrow> string option) \<Rightarrow> string \<Rightarrow> acl_option" where
  "with_config url_norm open_file f o1 = snd (load_options url_norm open_file f (o1\<lparr>ao_config := f\<rparr>))"

section \<open>Reloading\<close>

definition zero_time :: int where "zero_time = - 62135596800 * 10 ^ 9"

definition last_mod :: "(string \<Rightarrow> int option) \<Rightarrow> string \<Rightarrow> int" where
  "last_mod stat f = (case stat f of None \<Rightarrow> zero_time | Some t \<Rightarrow> t)"

text \<open>One tick of \<open>watch\<close>, on the stored options and the time of the last reload.\<close>

definition watch_tick ::
  "url_normaliser \<Rightarrow> string \<Rightarrow> (string \<Rightarrow> int option) \<Rightarrow> (string \<Rightarrow> string option) \<Rightarrow> acl_opts \<times> int \<Rightarrow> acl_opts \<times> int" where
  "watch_tick url_norm f stat open_file st =
     (case st of (o1, seen) \<Rightarrow>
        (let t = last_mod stat f
         in if t > seen
            then (case load_options url_norm open_file f
                         (new_options\<lparr>ao_config := f, ao_viewer := ao_viewer o1, ao_lookup := ao_lookup o1\<rparr>) of
                    (True, n) \<Rightarrow> (n, t)
                  | (False, n) \<Rightarrow> (o1, seen))
            else (o1, seen)))"

text \<open>The ticks, each with the file system it finds.\<close>

definition watch_run ::
  "url_normaliser \<Rightarrow> string \<Rightarrow> ((string \<Rightarrow> int option) \<times> (string \<Rightarrow> string option)) list \<Rightarrow> acl_opts \<times> int \<Rightarrow> acl_opts \<times> int" where
  "watch_run url_norm f ticks st = fold (\<lambda>(stat, op). watch_tick url_norm f stat op) ticks st"

section \<open>The middleware\<close>

record acl_model =
  am_host :: string
  am_ip :: string
  am_country :: string

datatype acl_decision = Go | Refuse acl_model | Bounce

definition host_allowed :: "acl_opts \<Rightarrow> request \<Rightarrow> bool" where
  "host_allowed o1 r \<longleftrightarrow> to_lower (r_host r) \<in> ao_hosts o1 \<or> list_ex (equal_fold (r_path r)) (ao_whitelist o1)"

text \<open>What is decided once the host is accepted: by the networks, then by the countries.\<close>

definition decide_ip :: "acl_opts \<Rightarrow> acl_model \<Rightarrow> acl_decision" where
  "decide_ip o1 m =
     (case parse_ip (am_ip m) of
        None \<Rightarrow> Go
      | Some w \<Rightarrow>
          if nets_contain w (ao_allow o1) then Go
          else if nets_contain w (ao_deny o1) then Refuse m
          else (case ao_lookup o1 of
                  None \<Rightarrow> Go
                | Some lookup \<Rightarrow>
                    let m1 = m\<lparr>am_country := lookup (am_ip m)\<rparr>
                    in if country_has (ao_allow_c o1) (am_country m1) then Go
                       else if country_has (ao_deny_c o1) (am_country m1) then Refuse m1
                       else Go))"

definition acl_decide :: "acl_opts \<Rightarrow> request \<Rightarrow> acl_decision" where
  "acl_decide o1 r =
     (case split_host_port (r_remote r) of
        None \<Rightarrow> Go
      | Some addr \<Rightarrow>
          let m = \<lparr>am_host = to_lower (r_host r), am_ip = addr, am_country = []\<rparr>
          in if ao_hosts o1 \<noteq> {} \<and> \<not> host_allowed o1 r
             then (if ao_code o1 > 0 \<and> ao_url o1 \<noteq> [] then Bounce else Refuse m)
             else decide_ip o1 m)"

definition acl_redirect :: "env \<Rightarrow> acl_opts \<Rightarrow> handler" where
  "acl_redirect env o1 c = do { c1 \<leftarrow> redirect env (ao_url o1) [ao_code o1] c; Some (Some ErrCancelled, c1) }"

definition acl_reject :: "env \<Rightarrow> (acl_model \<Rightarrow> any) \<Rightarrow> acl_opts \<Rightarrow> acl_model \<Rightarrow> handler" where
  "acl_reject env as_any o1 m c =
     do {
       c1 \<leftarrow> write_status 403 c;
       c2 \<leftarrow> (if ao_viewer o1 \<noteq> [] then map_option snd (view env (as_any m) [ao_viewer o1] c1) else Some c1);
       Some (Some ErrCancelled, c2)
     }"

definition acl_middleware :: "env \<Rightarrow> (acl_model \<Rightarrow> any) \<Rightarrow> acl_opts \<Rightarrow> middleware" where
  "acl_middleware env as_any o1 next c =
     (case acl_decide o1 (c_req c) of
        Go \<Rightarrow> next c
      | Bounce \<Rightarrow> acl_redirect env o1 c
      | Refuse m \<Rightarrow> acl_reject env as_any o1 m c)"

text \<open>
  \<open>New\<close> stores its options in a variable of the package, so what a middleware sees is what
  the last \<open>New\<close> (or reload) has stored.
\<close>

definition acl_new :: "acl_option list \<Rightarrow> acl_opts option \<Rightarrow> acl_opts option" where
  "acl_new opts v = Some (fold (\<lambda>opt x. opt x) opts new_options)"

section \<open>Lemmas\<close>

lemma nets_contain_iff: "nets_contain w ns \<longleftrightarrow> (\<exists>n\<in>set ns. net_contains n w)"
  by (induction ns) auto

lemma all_nets_contain: "net_contains all_ipv4 w \<or> net_contains all_ipv6 w"
proof -
  have "to4 (0 :: ip) = None" by (simp add: to4_def)
  moreover have "mask 32 = (- 1 :: 32 word)" "mask 128 = (- 1 :: 128 word)"
    using mask_full [where 'a = 32] mask_full [where 'a = 128] by simp_all
  ultimately show ?thesis
    by (cases "to4 w") (simp_all add: all_ipv4_def all_ipv6_def net_contains_def mask4_def mask16_def)
qed

lemma allow_hosts_set: "allow_hosts hs o1 = o1\<lparr>ao_hosts := ao_hosts o1 \<union> to_lower ` set hs\<rparr>"
  unfolding allow_hosts_def by (induction hs arbitrary: o1) simp_all

lemma allow_nets_list: "allow_ip_nets ns o1 = o1\<lparr>ao_allow := ao_allow o1 @ concat (map entry_nets ns)\<rparr>"
  unfolding allow_ip_nets_def by (induction ns arbitrary: o1) simp_all

lemma deny_nets_list: "deny_ip_nets ns o1 = o1\<lparr>ao_deny := ao_deny o1 @ concat (map entry_nets ns)\<rparr>"
  unfolding deny_ip_nets_def by (induction ns arbitrary: o1) simp_all

section \<open>Loading a file that is written section by section\<close>

datatype acl_block = Entries acl_section "string list" | Redirect "string list"

fun header_of :: "acl_section \<Rightarrow> string" where
  "header_of SectionNA = ''[host_redirect]''"
| "header_of SectionAH = ''[allow_hosts]''"
| "header_of SectionAN = ''[allow_ipnets]''"
| "header_of SectionDN = ''[deny_ipnets]''"
| "header_of SectionAC = ''[allow_countries]''"
| "header_of SectionDC = ''[deny_countries]''"
| "header_of SectionWL = ''[host_whitelist]''"

fun block_lines :: "acl_block \<Rightarrow> string list" where
  "block_lines (Entries sec es) = header_of sec # es"
| "block_lines (Redirect ls) = header_of SectionNA # ls"

fun apply_block :: "url_normaliser \<Rightarrow> acl_block \<Rightarrow> acl_opts \<Rightarrow> acl_opts" where
  "apply_block url_norm (Entries sec es) = fold (load_entry sec) es"
| "apply_block url_norm (Redirect ls) = fold (redirect_line url_norm) ls"

definition clean_line :: "string \<Rightarrow> bool" where
  "clean_line l \<longleftrightarrow> l \<noteq> [] \<and> SP \<notin> set l \<and> LF \<notin> set l \<and> last l \<noteq> CR \<and> length l \<le> max_line \<and>
     \<not> has_prefix l ''#'' \<and> \<not> has_prefix l '';'' \<and> \<not> has_prefix l ''[''"

fun clean_block :: "acl_block \<Rightarrow> bool" where
  "clean_block (Entries sec es) \<longleftrightarrow> sec \<noteq> SectionNA \<and> list_all clean_line es"
| "clean_block (Redirect ls) \<longleftrightarrow> list_all clean_line ls"

fun is_redirect :: "acl_block \<Rightarrow> bool" where
  "is_redirect (Redirect ls) \<longleftrightarrow> True"
| "is_redirect (Entries sec es) \<longleftrightarrow> False"

text \<open>No two redirect sections in a row: the loader does not see the second one.\<close>

fun separated :: "acl_block list \<Rightarrow> bool" where
  "separated (a # b # bs) \<longleftrightarrow> \<not> (is_redirect a \<and> is_redirect b) \<and> separated (b # bs)"
| "separated bs \<longleftrightarrow> True"

definition config_file :: "acl_block list \<Rightarrow> string" where
  "config_file bs = concat (map (\<lambda>l. l @ [LF]) (concat (map block_lines bs)))"

lemma replace_byte_id: "c \<notin> set s \<Longrightarrow> replace_byte s c r = s"
  by (induction s) (auto simp: replace_byte_def)

lemma load_line_clean: "clean_line l \<Longrightarrow> load_line (l # ls) = Some (l, ls)"
  by (simp add: clean_line_def replace_byte_id Let_def)

lemma load_line_header: "load_line (header_of sec # ls) = Some (header_of sec, ls)"
  by (cases sec) (simp_all add: replace_byte_def Let_def)

lemma section_of_header: "sec \<noteq> SectionNA \<Longrightarrow> section_of (header_of sec) = Some sec"
  by (cases sec) (simp_all add: section_of_def)

lemma clean_line_no_section: "clean_line l \<Longrightarrow> section_of l = None \<and> l \<noteq> header_of SectionNA"
proof -
  assume "clean_line l"
  then have "l \<noteq> CHR ''['' # t" for t by (auto simp: clean_line_def)
  then show ?thesis by (simp add: section_of_def)
qed

lemma load_loop_entries:
  "list_all clean_line es \<Longrightarrow> load_loop u sec (es @ rest) o1 = load_loop u sec rest (fold (load_entry sec) es o1)"
proof (induction es arbitrary: o1)
  case (Cons e es)
  then have "load_loop u sec (e # es @ rest) o1 = load_loop u sec (es @ rest) (load_entry sec e o1)"
    using clean_line_no_section [of e] load_line_clean [of e "es @ rest"]
    by (subst load_loop.simps) (simp del: load_line.simps)
  with Cons show ?case by simp
qed simp

lemma load_loop_section:
  "sec \<noteq> SectionNA \<Longrightarrow> load_loop u s0 (header_of sec # ls) o1 = load_loop u sec ls o1"
  using section_of_header [of sec] load_line_header [of sec ls]
  by (subst load_loop.simps) (cases sec; simp del: load_line.simps)

lemma redirect_clean:
  "list_all clean_line ls \<Longrightarrow> load_host_redirect u (ls @ rest) o1 = load_host_redirect u rest (fold (redirect_line u) ls o1)"
proof (induction ls arbitrary: o1)
  case (Cons l ls)
  then have "load_host_redirect u (l # ls @ rest) o1 = load_host_redirect u (ls @ rest) (redirect_line u l o1)"
    using load_line_clean [of l "ls @ rest"] by (subst load_host_redirect.simps) (simp add: clean_line_def del: load_line.simps)
  with Cons show ?case by simp
qed simp

lemma redirect_end: "load_host_redirect u [] o1 = ([], [], o1)"
  by (subst load_host_redirect.simps) simp

lemma redirect_next: "load_host_redirect u (header_of sec # ls) o1 = (header_of sec, ls, o1)"
  using load_line_header [of sec ls] by (subst load_host_redirect.simps) (cases sec; simp del: load_line.simps)

lemma load_loop_end [simp]: "load_loop u sec [] o1 = o1"
  by (subst load_loop.simps) simp

lemma load_loop_redirect:
  assumes "list_all clean_line ls"
  shows "load_loop u s0 (header_of SectionNA # ls @ rest) o1 =
    (case load_host_redirect u rest (fold (redirect_line u) ls o1) of
       (l1, rest1, o2) \<Rightarrow>
         (case section_of l1 of
            Some s \<Rightarrow> load_loop u s rest1 o2
          | None \<Rightarrow> load_loop u SectionNA rest1 o2))"
  using load_line_header [of SectionNA "ls @ rest"] redirect_clean [OF assms, of u rest o1]
  by (subst load_loop.simps) (simp del: load_line.simps split: prod.split option.split)

lemma load_loop_blocks:
  "list_all clean_block bs \<Longrightarrow> separated bs \<Longrightarrow>
     load_loop u s0 (concat (map block_lines bs)) o1 = fold (apply_block u) bs o1"
proof (induction bs arbitrary: s0 o1)
  case (Cons b bs)
  then have ih: "load_loop u s0 (concat (map block_lines bs)) o2 = fold (apply_block u) bs o2" for s0 o2
    by (cases bs) auto
  show ?case
  proof (cases b)
    case (Entries sec es)
    with Cons.prems have "sec \<noteq> SectionNA" "list_all clean_line es" by simp_all
    then show ?thesis by (simp add: Entries load_loop_section load_loop_entries ih del: header_of.simps)
  next
    case (Redirect ls)
    let ?o = "fold (redirect_line u) ls o1"
    from Cons.prems Redirect have ls: "list_all clean_line ls" by simp
    have "load_loop u s0 (header_of SectionNA # ls @ concat (map block_lines bs)) o1 = fold (apply_block u) bs ?o"
    proof (cases bs)
      case Nil
      then show ?thesis
        using load_loop_redirect [OF ls, of u s0 "[]" o1] by (simp add: redirect_end section_of_def del: header_of.simps)
    next
      case (Cons c cs)
      obtain sec es where c: "c = Entries sec es"
        using Cons.prems Redirect Cons by (cases c) auto
      then have sec: "sec \<noteq> SectionNA" using Cons.prems Cons by simp
      from c Cons have bl: "concat (map block_lines bs) = header_of sec # es @ concat (map block_lines cs)" by simp
      have "load_loop u s0 (header_of SectionNA # ls @ concat (map block_lines bs)) o1 =
          load_loop u sec (es @ concat (map block_lines cs)) ?o"
        by (simp only: load_loop_redirect [OF ls] bl redirect_next section_of_header [OF sec] split_conv option.case)
      also have "\<dots> = load_loop u s0 (concat (map block_lines bs)) ?o"
        by (simp only: bl load_loop_section [OF sec])
      finally show ?thesis by (simp only: ih)
    qed
    then show ?thesis by (simp add: Redirect del: header_of.simps)
  qed
qed simp

lemma go_split_lines:
  "\<forall>l\<in>set ls. LF \<notin> set l \<Longrightarrow> go_split (concat (map (\<lambda>l. l @ [LF]) ls)) LF = ls @ [[]]"
  by (induction ls) (simp_all add: go_split_append_sep)

definition plain_line :: "string \<Rightarrow> bool" where
  "plain_line l \<longleftrightarrow> LF \<notin> set l \<and> (l = [] \<or> last l \<noteq> CR) \<and> length l \<le> max_line"

lemma scan_lines_plain:
  assumes "\<forall>l\<in>set ls. plain_line l"
  shows "scan_lines (concat (map (\<lambda>l. l @ [LF]) ls)) = ls"
proof -
  have g: "go_split (concat (map (\<lambda>l. l @ [LF]) ls)) LF = ls @ [[]]"
    using assms by (intro go_split_lines) (simp add: plain_line_def)
  have t: "takeWhile (\<lambda>l. length l \<le> max_line) ls = ls"
    using assms by (intro takeWhile_eq_all_conv [THEN iffD2]) (simp add: plain_line_def)
  have d: "map drop_cr ls = ls"
    using assms by (intro map_idI) (auto simp: plain_line_def drop_cr_def)
  show ?thesis by (simp only: scan_lines_def Let_def g last_snoc butlast_snoc simp_thms if_True t d)
qed

lemma plain_header: "plain_line (header_of sec)"
  by (cases sec) (simp_all add: plain_line_def max_line_def)

lemma plain_clean: "clean_line l \<Longrightarrow> plain_line l"
  by (simp add: plain_line_def clean_line_def)

lemma plain_block: "clean_block b \<Longrightarrow> l \<in> set (block_lines b) \<Longrightarrow> plain_line l"
  using plain_header plain_clean by (cases b) (auto simp: list_all_iff simp del: header_of.simps)

lemma scan_config: "list_all clean_block bs \<Longrightarrow> scan_lines (config_file bs) = concat (map block_lines bs)"
  unfolding config_file_def using plain_block by (intro scan_lines_plain) (auto simp: list_all_iff)

lemma load_config:
  "list_all clean_block bs \<Longrightarrow> separated bs \<Longrightarrow> op f = Some (config_file bs) \<Longrightarrow>
     load_options u op f o1 = (True, fold (apply_block u) bs o1)"
  by (simp add: load_options_def scan_config load_loop_blocks)

section \<open>Addresses that do not parse\<close>

text \<open>
  A remote address without a port passes every rule, the one on hosts included; one whose
  host is no address passes all rules on networks and countries.
\<close>

lemma unparsed_address_passes:
  "(split_host_port (r_remote r) = None \<longrightarrow> acl_decide o1 r = Go) \<and>
   (\<forall>addr. split_host_port (r_remote r) = Some addr \<longrightarrow> parse_ip addr = None \<longrightarrow> ao_hosts o1 = {} \<longrightarrow> acl_decide o1 r = Go)"
  by (auto simp: acl_decide_def decide_ip_def Let_def)

text \<open>The entry \<open>*\<close> stands for every address.\<close>

lemma star_denies_all:
  "''*'' \<in> set ns \<Longrightarrow> \<exists>n\<in>set (ao_deny (deny_ip_nets ns o1)). net_contains n w"
  using all_nets_contain [of w] by (auto simp: deny_nets_list entry_nets_def)

text \<open>A status that is no number becomes 0, so that visitors are rejected instead of redirected.\<close>

lemma bad_status_rejects:
  assumes "fst (atoi v) = 0" "split_host_port (r_remote r) = Some addr" "ao_hosts o1 \<noteq> {}" "\<not> host_allowed o1 r"
  shows "\<exists>m. acl_decide (redirect_line u (''status_code='' @ v) o1) r = Refuse m"
  using assms by (simp add: acl_decide_def redirect_line_def host_allowed_def Let_def)

section \<open>Properties\<close>

text \<open>Who is refused, in terms of the rules: the host first, then networks, then countries.\<close>

definition acl_refused :: "acl_opts \<Rightarrow> request \<Rightarrow> bool" where
  "acl_refused o1 r \<longleftrightarrow>
     (\<exists>addr. split_host_port (r_remote r) = Some addr \<and>
        ((ao_hosts o1 \<noteq> {} \<and> \<not> host_allowed o1 r) \<or>
         (\<exists>w. parse_ip addr = Some w \<and> (\<forall>n\<in>set (ao_allow o1). \<not> net_contains n w) \<and>
            ((\<exists>n\<in>set (ao_deny o1). net_contains n w) \<or>
             (\<exists>lookup. ao_lookup o1 = Some lookup \<and> \<not> country_has (ao_allow_c o1) (lookup addr) \<and>
                country_has (ao_deny_c o1) (lookup addr))))))"

lemma acl_decide_Go_iff: "acl_decide o1 r = Go \<longleftrightarrow> \<not> acl_refused o1 r"
proof (cases "split_host_port (r_remote r)")
  case None
  then show ?thesis by (simp add: acl_decide_def acl_refused_def)
next
  case (Some addr)
  show ?thesis
  proof (cases "ao_hosts o1 \<noteq> {} \<and> \<not> host_allowed o1 r")
    case True
    with Some show ?thesis by (simp add: acl_decide_def acl_refused_def Let_def)
  next
    case False
    with Some show ?thesis
      by (cases "parse_ip addr"; cases "ao_lookup o1")
        (auto simp: acl_decide_def acl_refused_def decide_ip_def nets_contain_iff Let_def split: if_splits)
  qed
qed

text \<open>
  C16: the access control list decides by its rules and shields the handler. A request it does
  not refuse goes to the next handler unchanged; one it refuses never does: the answer is the
  redirect, or 403, and the chain is cancelled.
\<close>

theorem acl_shields_handler:
  assumes "rw_code (c_rw c) = 0" and "w_status (rw_under (c_rw c)) = None" and "ao_viewer o1 = []" and "e_interceptor env = None"
    and "200 \<le> ao_code o1 \<and> ao_code o1 \<le> 999"
  shows "if acl_refused o1 (c_req c)
    then \<exists>c1 code. code \<in> {403, ao_code o1} \<and> rw_code (c_rw c1) = code \<and>
      (\<forall>next. acl_middleware env as_any o1 next c = Some (Some ErrCancelled, c1))
    else \<forall>next. acl_middleware env as_any o1 next c = next c"
proof (cases "acl_decide o1 (c_req c)")
  case Go
  then have "\<not> acl_refused o1 (c_req c)" using acl_decide_Go_iff [of o1 "c_req c"] by simp
  with Go show ?thesis by (simp add: acl_middleware_def)
next
  case (Refuse m)
  then have "acl_refused o1 (c_req c)" using acl_decide_Go_iff [of o1 "c_req c"] by auto
  with Refuse assms show ?thesis
    by (auto simp: acl_middleware_def acl_reject_def write_status_fresh)
next
  case Bounce
  then have "acl_refused o1 (c_req c)" using acl_decide_Go_iff [of o1 "c_req c"] by auto
  with Bounce assms show ?thesis
    by (auto simp: acl_middleware_def acl_redirect_def redirect_def write_status_fresh)
qed


text \<open>
  A reload forgets the options given in code. \<open>WithConfig\<close> merges the file into what the
  other options have set; the first reload that can read a newer file starts from the
  defaults, so that only the file, the viewer and the lookup function count from then on.
  When the file is not newer or cannot be read, everything stays.
\<close>

theorem reload_forgets_code_options:
  assumes "list_all clean_block bs" and "separated bs"
  shows "watch_tick url_norm f stat open_file (o1, seen) =
    (if last_mod stat f > seen \<and> open_file f \<noteq> None
     then (snd (load_options url_norm open_file f (new_options\<lparr>ao_config := f, ao_viewer := ao_viewer o1, ao_lookup := ao_lookup o1\<rparr>)),
           last_mod stat f)
     else (o1, seen)) \<and>
    (open_file f = Some (config_file bs) \<and> last_mod stat f > seen \<longrightarrow>
      fst (watch_tick url_norm f stat open_file (o1, seen)) =
        fold (apply_block url_norm) bs (new_options\<lparr>ao_config := f, ao_viewer := ao_viewer o1, ao_lookup := ao_lookup o1\<rparr>))"
  using load_config [OF assms, of open_file f url_norm]
  by (auto simp: watch_tick_def Let_def load_options_def split: option.splits)

section \<open>Witnesses\<close>

definition demo_blocks :: "acl_block list" where
  "demo_blocks = [Entries SectionDN [''*''], Redirect [''url=/sorry'', ''status_code=301'']]"

lemma demo_blocks_ok: "list_all clean_block demo_blocks" "separated demo_blocks"
  by (simp_all add: demo_blocks_def clean_line_def max_line_def)

lemma acl_shields_handler_witness:
  "\<exists>c1 code. code \<in> {403, 302} \<and> rw_code (c_rw c1) = code \<and>
     (\<forall>next. acl_middleware demo_env (\<lambda>_. AnyNil) (allow_hosts [''a.com''] new_options) next
        (demo_ctx (plain_request ''GET'' ''/'')) = Some (Some ErrCancelled, c1))"
proof -
  let ?o = "allow_hosts [''a.com''] new_options" and ?r = "plain_request ''GET'' ''/''"
  have "split_host_port (r_remote ?r) \<noteq> None"
    by (simp add: plain_request_def split_host_port_def last_index_byte_def)
  moreover have "\<not> host_allowed ?o ?r"
    by (simp add: host_allowed_def allow_hosts_def new_options_def plain_request_def to_lower_def lower_char_def byte_of_def)
  ultimately have "acl_refused ?o ?r" by (auto simp: acl_refused_def allow_hosts_def new_options_def)
  then show ?thesis
    using acl_shields_handler [of "demo_ctx ?r" ?o demo_env "\<lambda>_. AnyNil"]
    by (simp add: demo_ctx_def demo_env_def new_response_writer_def new_http_rw_def allow_hosts_def new_options_def)
qed


lemma reload_forgets_code_options_witness:
  "\<exists>st. st = with_config (\<lambda>u. Some u) (\<lambda>_. Some (config_file demo_blocks)) ''acl.ini'' (allow_hosts [''a.com''] new_options) \<and>
     ao_hosts (fst (watch_tick (\<lambda>u. Some u) ''acl.ini'' (\<lambda>_. Some 5) (\<lambda>_. Some (config_file demo_blocks)) (st, 3))) = {}"
proof -
  let ?st = "with_config (\<lambda>u. Some u) (\<lambda>_. Some (config_file demo_blocks)) ''acl.ini'' (allow_hosts [''a.com''] new_options)"
  have "fst (watch_tick (\<lambda>u. Some u) ''acl.ini'' (\<lambda>_. Some 5) (\<lambda>_. Some (config_file demo_blocks)) (?st, 3)) =
      fold (apply_block (\<lambda>u. Some u)) demo_blocks
        (new_options\<lparr>ao_config := ''acl.ini'', ao_viewer := ao_viewer ?st, ao_lookup := ao_lookup ?st\<rparr>)"
    using reload_forgets_code_options [OF demo_blocks_ok, of "\<lambda>u. Some u" "''acl.ini''" "\<lambda>_. Some 5"
        "\<lambda>_. Some (config_file demo_blocks)" ?st 3, THEN conjunct2]
    by (simp add: last_mod_def)
  then show ?thesis by (simp add: demo_blocks_def deny_ip_nets_def new_options_def redirect_line_def)
qed

end
