(* ===== verification/Hsts.thy ===== *)
theory Hsts
  imports IpNet Viewers
begin

text \<open>
  Strict transport security, \<open>ext/hsts\<close>: the options and the rules for paths that stay on plain
  HTTP (\<open>option.go\<close>), the header's middleware and the redirect (\<open>hsts.go\<close>).

  The package variable \<open>RedirectStatusCode\<close> is the argument \<open>code\<close> of the redirect.
\<close>

section \<open>Options\<close>

record hsts_config =
  hc_max_age :: int
  hc_sub_domains :: bool
  hc_preload :: bool

type_synonym hsts_option = "hsts_config \<Rightarrow> hsts_config"

definition default_max_age :: int where "default_max_age = 365 * 24 * 3600"

text \<open>A duration is its number of nanoseconds; the quotient of positive numbers is rounded down.\<close>

definition with_max_age :: "int \<Rightarrow> hsts_option" where
  "with_max_age t cfg = (if t > 0 then cfg\<lparr>hc_max_age := t div 1000000000\<rparr> else cfg)"

definition with_include_sub_domains :: hsts_option where
  "with_include_sub_domains cfg = cfg\<lparr>hc_sub_domains := True\<rparr>"

definition with_preload :: hsts_option where
  "with_preload cfg = cfg\<lparr>hc_preload := True\<rparr>"

definition hsts_options :: "hsts_option list \<Rightarrow> hsts_config" where
  "hsts_options opts =
     fold (\<lambda>opt cfg. opt cfg) opts \<lparr>hc_max_age = default_max_age, hc_sub_domains = False, hc_preload = False\<rparr>"

section \<open>Paths that are ignored\<close>

type_synonym ignore_rule = "request \<Rightarrow> bool"

fun ignore_match :: "string list \<Rightarrow> ignore_rule" where
  "ignore_match [] r = False"
| "ignore_match (path # paths) r = (if equal_fold (r_path r) path then True else ignore_match paths r)"

fun starts_with_any :: "string \<Rightarrow> string list \<Rightarrow> bool" where
  "starts_with_any l [] = False"
| "starts_with_any l (path # paths) = (if has_prefix l path then True else starts_with_any l paths)"

definition ignore_starts_with :: "string list \<Rightarrow> ignore_rule" where
  "ignore_starts_with paths r = starts_with_any (to_lower (r_path r)) (map to_lower paths)"

section \<open>Middlewares\<close>

definition hsts_value :: "hsts_config \<Rightarrow> string" where
  "hsts_value cfg =
     ''max-age='' @ itoa (hc_max_age cfg) @ (if hc_sub_domains cfg then ''; includeSubDomains'' else []) @
     (if hc_preload cfg then ''; preload'' else [])"

definition hsts_write_header :: "hsts_option list \<Rightarrow> middleware" where
  "hsts_write_header opts next c =
     (let r = c_req c
      in if (r_tls r \<or> hdr_get (r_header r) ''X-Forwarded-Proto'' = ''https'') \<and> (r_method r = ''GET'' \<or> r_method r = ''HEAD'')
         then next (write_header ''Strict-Transport-Security'' (hsts_value (hsts_options opts)) c)
         else next c)"

definition strip_port :: "string \<Rightarrow> string" where
  "strip_port host_port = (case split_host_port host_port of None \<Rightarrow> host_port | Some host \<Rightarrow> host)"

text \<open>The loop over the rules.\<close>

fun hsts_ignored :: "ignore_rule list \<Rightarrow> ignore_rule" where
  "hsts_ignored [] r = False"
| "hsts_ignored (it # rules) r = (if it r then True else hsts_ignored rules r)"

definition hsts_redirect :: "env \<Rightarrow> int \<Rightarrow> ignore_rule list \<Rightarrow> middleware" where
  "hsts_redirect env code rules next c =
     (let r = c_req c
      in if \<not> r_tls r \<and> (r_method r = ''GET'' \<or> r_method r = ''HEAD'')
         then (if hsts_ignored rules r then next c
               else do {
                 c1 \<leftarrow> redirect env (''https://'' @ strip_port (r_host r) @ r_uri r) [code] c;
                 Some (Some ErrCancelled, c1)
               })
         else next c)"

section \<open>The browser\<close>

text \<open>
  How a user agent reads the field (RFC 6797, 6.1 and 8.1): directives between semicolons,
  names without regard to case; the seconds to keep the policy, whether it holds for the
  subdomains, and the flag of the preload lists.
\<close>

definition sts_max_age :: "string \<Rightarrow> int option" where
  "sts_max_age d = (if equal_fold (take 8 d) ''max-age='' then Some (fst (atoi (drop 8 d))) else None)"

definition sts_policy :: "string \<Rightarrow> int option \<times> bool \<times> bool" where
  "sts_policy v =
     (let ds = map trim_space (go_split v CHR '';'')
      in (case find (\<lambda>d. sts_max_age d \<noteq> None) ds of None \<Rightarrow> None | Some d \<Rightarrow> sts_max_age d,
          list_ex (\<lambda>d. equal_fold d ''includeSubDomains'') ds, list_ex (\<lambda>d. equal_fold d ''preload'') ds))"

section \<open>Lemmas\<close>

lemma ignore_match_iff: "ignore_match paths r \<longleftrightarrow> (\<exists>p \<in> set paths. to_lower (r_path r) = to_lower p)"
  by (induction paths) (auto simp: equal_fold_def)

lemma ignore_starts_with_iff:
  "ignore_starts_with paths r \<longleftrightarrow> (\<exists>p \<in> set paths. has_prefix (to_lower (r_path r)) (to_lower p))"
proof -
  have "starts_with_any l qs \<longleftrightarrow> (\<exists>q \<in> set qs. has_prefix l q)" for l qs
    by (induction qs) auto
  then show ?thesis by (simp add: ignore_starts_with_def)
qed

lemma hsts_ignored_iff: "hsts_ignored rules r \<longleftrightarrow> (\<exists>it \<in> set rules. it r)"
  by (induction rules) auto

lemma itoa_no_semicolon: "CHR '';'' \<notin> set (itoa i)"
proof
  assume "CHR '';'' \<in> set (itoa i)"
  then show False using set_itoa [of "CHR '';''" i] by (auto simp: is_digit_def byte_of_def)
qed

lemma sts_directives:
  "go_split (hsts_value cfg) CHR '';'' =
     (''max-age='' @ itoa (hc_max_age cfg)) # (if hc_sub_domains cfg then ['' includeSubDomains''] else []) @
     (if hc_preload cfg then ['' preload''] else [])"
proof -
  have n: "CHR '';'' \<notin> set (''max-age='' @ itoa (hc_max_age cfg))" using itoa_no_semicolon by simp
  note s = go_split_append_sep [OF n] go_split_no_sep [OF n]
  show ?thesis
    using s(1) [of "'' includeSubDomains; preload''"] s(1) [of "'' includeSubDomains''"] s(1) [of "'' preload''"] s(2)
    by (simp add: hsts_value_def)
qed

lemma trim_max_age: "trim_space (''max-age='' @ itoa i) = ''max-age='' @ itoa i"
proof -
  have "\<not> is_space (last (''max-age='' @ itoa i))"
    using set_itoa [of "last (itoa i)" i] is_digit_plain by (auto simp: last_in_set)
  moreover have "\<not> is_space (hd (''max-age='' @ itoa i))" by (simp add: is_space_def)
  ultimately show ?thesis unfolding trim_space_def by (intro trim_by_id) simp
qed

lemma sts_directive_kinds:
  "sts_max_age (''max-age='' @ s) = Some (fst (atoi s))"
  "sts_max_age ''includeSubDomains'' = None" "sts_max_age ''preload'' = None"
  "\<not> equal_fold (''max-age='' @ s) ''includeSubDomains''" "\<not> equal_fold (''max-age='' @ s) ''preload''"
  "\<not> equal_fold ''preload'' ''includeSubDomains''" "\<not> equal_fold ''includeSubDomains'' ''preload''"
  "trim_space '' includeSubDomains'' = ''includeSubDomains''" "trim_space '' preload'' = ''preload''"
  by (simp_all add: sts_max_age_def equal_fold_def to_lower_def lower_char_def byte_of_def
    trim_space_def trim_by_def trim_right_def is_space_def)

text \<open>A browser reads the configuration back from the field.\<close>

lemma sts_policy_value:
  assumes "0 \<le> hc_max_age cfg" "hc_max_age cfg \<le> max_int64"
  shows "sts_policy (hsts_value cfg) = (Some (hc_max_age cfg), hc_sub_domains cfg, hc_preload cfg)"
proof -
  define d where "d = ''max-age='' @ itoa (hc_max_age cfg)"
  have d: "sts_max_age d = Some (hc_max_age cfg)"
    unfolding d_def sts_directive_kinds using assms atoi_itoa [of "hc_max_age cfg"] by (simp add: min_int64_def)
  have k: "\<not> equal_fold d ''includeSubDomains''" "\<not> equal_fold d ''preload''" unfolding d_def by (rule sts_directive_kinds)+
  have t: "trim_space d = d" unfolding d_def by (rule trim_max_age)
  have s: "go_split (hsts_value cfg) CHR '';'' =
      d # (if hc_sub_domains cfg then ['' includeSubDomains''] else []) @ (if hc_preload cfg then ['' preload''] else [])"
    unfolding d_def by (rule sts_directives)
  show ?thesis unfolding sts_policy_def s by (simp add: d k t sts_directive_kinds(2,3,6-9))
qed

text \<open>The options as the caller writes them.\<close>

datatype hsts_arg = MaxAge int | IncludeSubDomains | Preload

fun arg_option :: "hsts_arg \<Rightarrow> hsts_option" where
  "arg_option (MaxAge t) = with_max_age t"
| "arg_option IncludeSubDomains = with_include_sub_domains"
| "arg_option Preload = with_preload"

text \<open>The last positive duration, in seconds.\<close>

fun wanted_age :: "hsts_arg list \<Rightarrow> int \<Rightarrow> int" where
  "wanted_age [] age = age"
| "wanted_age (MaxAge t # args) age = wanted_age args (if t > 0 then t div 1000000000 else age)"
| "wanted_age (_ # args) age = wanted_age args age"

lemma hsts_options_fold:
  "fold (\<lambda>opt cfg. opt cfg) (map arg_option args) cfg =
     cfg\<lparr>hc_max_age := wanted_age args (hc_max_age cfg),
         hc_sub_domains := hc_sub_domains cfg \<or> IncludeSubDomains \<in> set args,
         hc_preload := hc_preload cfg \<or> Preload \<in> set args\<rparr>"
proof (induction args arbitrary: cfg)
  case (Cons x args)
  then show ?case
    by (cases x) (simp_all add: with_max_age_def with_include_sub_domains_def with_preload_def)
qed simp

lemma hsts_options_args:
  "hsts_options (map arg_option args) =
     \<lparr>hc_max_age = wanted_age args default_max_age, hc_sub_domains = IncludeSubDomains \<in> set args,
      hc_preload = Preload \<in> set args\<rparr>"
  by (simp add: hsts_options_def hsts_options_fold)

lemma wanted_age_bounds:
  "(\<And>t. MaxAge t \<in> set args \<Longrightarrow> t \<le> max_int64) \<Longrightarrow> 0 \<le> age \<Longrightarrow> age \<le> max_int64 \<Longrightarrow>
     0 \<le> wanted_age args age \<and> wanted_age args age \<le> max_int64"
proof (induction args age rule: wanted_age.induct)
  case (2 t args age)
  have "t \<le> max_int64" using "2.prems"(1) [of t] by simp
  then have "t > 0 \<Longrightarrow> 0 \<le> t div 1000000000 \<and> t div 1000000000 \<le> max_int64" by linarith
  with 2 show ?case by simp
qed simp_all

lemma redirect_location:
  assumes "e_interceptor env = None" and "rw_code (c_rw c) = 0" and "w_status (rw_under (c_rw c)) = None"
    and "300 \<le> code" and "code \<le> 399" and "url \<noteq> []"
  shows "\<exists>c1. redirect env url [code] c = Some c1 \<and> w_status (rw_under (c_rw c1)) = Some code \<and>
    w_sent_header (rw_under (c_rw c1)) ''Location'' = Some [url]"
proof -
  have "canonical_key ''Location'' = ''Location''" by code_simp
  then show ?thesis
    using assms by (simp add: redirect_def Let_def write_status_fresh)
      (simp add: write_header_def set_resp_header_def rw_map_header_def hdr_set_def)
qed

section \<open>What the redirect does not see\<close>

text \<open>
  Behind a proxy that ends TLS the request is plain for the server: the header is sent, as the
  proxy says \<open>https\<close>, but the redirect answers with the address the browser asked for.
\<close>

lemma proxied_request_redirected_to_itself:
  assumes "e_interceptor env = None" and "rw_code (c_rw c) = 0" and "w_status (rw_under (c_rw c)) = None"
    and "\<not> r_tls (c_req c)" and "r_method (c_req c) = ''GET''" and "CHR '':'' \<notin> set (r_host (c_req c))"
  shows "\<exists>c1. hsts_redirect env 301 [] next c = Some (Some ErrCancelled, c1) \<and>
    w_sent_header (rw_under (c_rw c1)) ''Location'' = Some [''https://'' @ r_host (c_req c) @ r_uri (c_req c)]"
proof -
  have "strip_port (r_host (c_req c)) = r_host (c_req c)"
    using assms(6) index_byte_None_iff [of "rev (r_host (c_req c))" "CHR '':''"]
    by (simp add: strip_port_def split_host_port_def last_index_byte_def)
  then show ?thesis
    using assms redirect_location [OF assms(1-3), of 301 "''https://'' @ r_host (c_req c) @ r_uri (c_req c)"]
    by (auto simp: hsts_redirect_def)
qed

text \<open>The host of an IPv6 address loses its brackets together with the port.\<close>

lemma strip_port_v6: "strip_port ''[::1]:80'' = ''::1''"
  by (simp add: strip_port_def split_host_port_def last_index_byte_def)

text \<open>A duration below a second is the age 0, with which a browser deletes its policy.\<close>

lemma short_age_is_zero: "0 < t \<Longrightarrow> t < 1000000000 \<Longrightarrow> hc_max_age (with_max_age t cfg) = 0"
  by (simp add: with_max_age_def)

section \<open>Properties\<close>

text \<open>
  The policy reaches the browser. On a GET or HEAD over TLS, or declared \<open>https\<close> by a
  proxy, the handler runs with a field from which a browser reads the last positive age given
  to the options (a year by default), and the two flags exactly when they were given.
\<close>

theorem hsts_policy_read:
  assumes "\<And>t. MaxAge t \<in> set args \<Longrightarrow> t \<le> max_int64"
    and "r_tls (c_req c) \<or> hdr_get (r_header (c_req c)) ''X-Forwarded-Proto'' = ''https''"
    and "r_method (c_req c) \<in> {''GET'', ''HEAD''}"
  shows "\<exists>c1. (\<forall>next. hsts_write_header (map arg_option args) next c = next c1) \<and>
    sts_policy (resp_header c1 ''Strict-Transport-Security'') =
      (Some (wanted_age args default_max_age), IncludeSubDomains \<in> set args, Preload \<in> set args)"
proof -
  have "0 \<le> wanted_age args default_max_age \<and> wanted_age args default_max_age \<le> max_int64"
    by (rule wanted_age_bounds [OF assms(1)]) (simp_all add: default_max_age_def max_int64_def)
  then show ?thesis
    using assms(2,3) sts_policy_value [of "hsts_options (map arg_option args)"]
    by (auto simp: hsts_write_header_def Let_def resp_header_write same_key_def hsts_options_args)
qed


section \<open>Witnesses\<close>

lemma hsts_policy_read_witness:
  "\<exists>c1. (\<forall>next. hsts_write_header (map arg_option [MaxAge 86400000000000, Preload]) next
       (demo_ctx ((plain_request ''GET'' ''/'')\<lparr>r_tls := True\<rparr>)) = next c1) \<and>
     sts_policy (resp_header c1 ''Strict-Transport-Security'') = (Some 86400, False, True)"
  using hsts_policy_read [of "[MaxAge 86400000000000, Preload]" "demo_ctx ((plain_request ''GET'' ''/'')\<lparr>r_tls := True\<rparr>)"]
  by (simp add: demo_ctx_def plain_request_def max_int64_def)


end
