(* ===== verification/Base64.thy ===== *)
theory Base64
  imports Prelude
begin

text \<open>
  \<open>base64.URLEncoding\<close> as \<open>ext/cookie\<close> and \<open>ext/csrf\<close> use it: the URL alphabet, padding, and a
  decoder that skips line ends and does not look at the unused bits of the last digit.
\<close>

definition b64_char :: "nat \<Rightarrow> char" where
  "b64_char n =
     (if n < 26 then char_of (65 + n) else if n < 52 then char_of (71 + n)
      else if n < 62 then char_of (n - 4) else if n = 62 then CHR ''-'' else CHR ''_'')"

definition b64_val :: "char \<Rightarrow> nat option" where
  "b64_val c =
     (let b = byte_of c
      in if 65 \<le> b \<and> b \<le> 90 then Some (b - 65)
         else if 97 \<le> b \<and> b \<le> 122 then Some (b - 71)
         else if 48 \<le> b \<and> b \<le> 57 then Some (b + 4)
         else if c = CHR ''-'' then Some 62
         else if c = CHR ''_'' then Some 63
         else None)"

fun b64_encode :: "string \<Rightarrow> string" where
  "b64_encode [] = []"
| "b64_encode [a] =
     [b64_char (byte_of a div 4), b64_char (byte_of a mod 4 * 16), CHR ''='', CHR ''='']"
| "b64_encode [a, b] =
     (let n = (byte_of a * 256 + byte_of b) * 4
      in [b64_char (n div 64 div 64), b64_char (n div 64 mod 64), b64_char (n mod 64), CHR ''=''])"
| "b64_encode (a # b # c # s) =
     (let n = (byte_of a * 256 + byte_of b) * 256 + byte_of c
      in [b64_char (n div 64 div 64 div 64), b64_char (n div 64 div 64 mod 64), b64_char (n div 64 mod 64), b64_char (n mod 64)]
         @ b64_encode s)"

definition bytes3 :: "nat \<Rightarrow> string" where
  "bytes3 n = [char_of (n div 256 div 256), char_of (n div 256 mod 256), char_of (n mod 256)]"

fun b64_quanta :: "string \<Rightarrow> string option" where
  "b64_quanta [] = Some []"
| "b64_quanta (a # b # c # d # s) =
     (case (b64_val a, b64_val b) of
        (Some x, Some y) \<Rightarrow>
          (case (b64_val c, b64_val d) of
             (Some z, Some w) \<Rightarrow> map_option (\<lambda>r. bytes3 (((x * 64 + y) * 64 + z) * 64 + w) @ r) (b64_quanta s)
           | (Some z, None) \<Rightarrow>
               if d = CHR ''='' \<and> s = []
               then Some (take 2 (bytes3 (((x * 64 + y) * 64 + z) * 64))) else None
           | (None, _) \<Rightarrow>
               if c = CHR ''='' \<and> d = CHR ''='' \<and> s = []
               then Some (take 1 (bytes3 ((x * 64 + y) * 64 * 64))) else None)
      | _ \<Rightarrow> None)"
| "b64_quanta s = None"

definition b64_decode :: "string \<Rightarrow> string option" where
  "b64_decode s = b64_quanta (filter (\<lambda>c. c \<noteq> CR \<and> c \<noteq> LF) s)"

section \<open>Lemmas\<close>

lemma byte_of_char_of: "n < 256 \<Longrightarrow> byte_of (char_of n) = n"
  by (simp add: byte_of_def)

lemma char_of_byte_of [simp]: "char_of (byte_of c) = c"
  by (simp add: byte_of_def)

lemma b64_val_char [simp]:
  assumes "n < 64"
  shows "b64_val (b64_char n) = Some n"
proof -
  consider "n < 26" | "26 \<le> n" "n < 52" | "52 \<le> n" "n < 62" | "n = 62" | "n = 63" using assms by linarith
  then show ?thesis
    by cases (auto simp: b64_char_def b64_val_def byte_of_char_of Let_def byte_of_def)
qed

definition b64_alphabet :: "char \<Rightarrow> bool" where
  "b64_alphabet c \<longleftrightarrow> b64_val c \<noteq> None \<or> c = CHR ''=''"

lemma b64_alphabet_char: "n < 64 \<Longrightarrow> b64_alphabet (b64_char n)"
  by (simp add: b64_alphabet_def)

lemma byte_less [simp]: "byte_of c < 256"
  by (rule byte_of_less_256)

lemma div64: "n < m * 64 \<Longrightarrow> n div 64 < (m :: nat)"
  by (rule less_mult_imp_div_less)

lemma b64_tops:
  "(byte_of a * 256 + byte_of b) * 4 div 64 div 64 < 64"
  "((byte_of a * 256 + byte_of b) * 256 + byte_of c) div 64 div 64 div 64 < 64"
proof -
  have *: "byte_of a < 256" "byte_of b < 256" "byte_of c < 256" by simp_all
  show "(byte_of a * 256 + byte_of b) * 4 div 64 div 64 < 64" by (intro div64) (use * in \<open>simp del: byte_less\<close>)
  show "((byte_of a * 256 + byte_of b) * 256 + byte_of c) div 64 div 64 div 64 < 64" by (intro div64) (use * in \<open>simp del: byte_less\<close>)
qed

lemma b64_encode_alphabet: "list_all b64_alphabet (b64_encode s)"
proof (induction s rule: b64_encode.induct)
  case (2 a)
  have "byte_of a div 4 < 64" using byte_less [of a] by linarith
  moreover have "byte_of a mod 4 * 16 < 64" using mod_less_divisor [of 4 "byte_of a"] by linarith
  ultimately show ?case by (simp add: b64_alphabet_char) (simp add: b64_alphabet_def)
next
  case (3 a b)
  show ?case using b64_tops(1) [of a b] by (simp add: b64_alphabet_char Let_def del: div_mult_self1_is_m) (simp add: b64_alphabet_def)
next
  case (4 a b c s)
  from b64_tops(2) [of a b c] 4 show ?case by (simp add: b64_alphabet_char Let_def)
qed simp

lemma base256: "z < 256 \<Longrightarrow> (y * 256 + z) div 256 = y" "z < 256 \<Longrightarrow> (y * 256 + z) mod 256 = (z :: nat)"
  by simp_all

lemma bytes3_of:
  "bytes3 ((byte_of a * 256 + byte_of b) * 256 + byte_of c) = [a, b, c]"
  by (simp only: bytes3_def base256 byte_less char_of_byte_of)

lemma base64_digits:
  "((n div 64 div 64 div 64 * 64 + n div 64 div 64 mod 64) * 64 + n div 64 mod 64) * 64 + n mod 64 = (n :: nat)"
  by (simp only: div_mult_mod_eq)

lemma quarter: "n = q * 4 + r \<Longrightarrow> (q * 64 + r * 16) * 64 * 64 = (n * 256 + 0) * 256 + (0 :: nat)"
  by simp

lemma b64_quanta_encode: "b64_quanta (b64_encode s) = Some s"
proof (induction s rule: b64_encode.induct)
  case (2 a)
  let ?n = "byte_of a"
  have d: "?n div 4 < 64" "?n mod 4 * 16 < 64" using byte_less [of a] by linarith+
  have "(?n div 4 * 64 + ?n mod 4 * 16) * 64 * 64 = (?n * 256 + byte_of (char_of (0::nat))) * 256 + byte_of (char_of (0::nat))"
    using quarter [of ?n "?n div 4" "?n mod 4"] by (simp add: byte_of_char_of)
  then have b: "bytes3 ((?n div 4 * 64 + ?n mod 4 * 16) * 64 * 64) = [a, char_of (0::nat), char_of (0::nat)]"
    by (simp only: bytes3_of)
  have "b64_val CHR ''='' = None" by (simp add: b64_val_def byte_of_def)
  then show ?case
    by (simp only: b64_encode.simps b64_quanta.simps b64_val_char [OF d(1)] b64_val_char [OF d(2)] split_conv option.case
      simp_thms if_True b) simp
next
  case (3 a b)
  let ?n = "(byte_of a * 256 + byte_of b) * 4"
  have d: "?n div 64 div 64 < 64" by (rule b64_tops)
  have "((?n div 64 div 64 * 64 + ?n div 64 mod 64) * 64 + ?n mod 64) * 64 =
      (byte_of a * 256 + byte_of b) * 256 + byte_of (char_of (0::nat))"
    by (simp only: div_mult_mod_eq) (simp add: byte_of_char_of)
  then have b: "bytes3 (((?n div 64 div 64 * 64 + ?n div 64 mod 64) * 64 + ?n mod 64) * 64) = [a, b, char_of (0::nat)]"
    by (simp only: bytes3_of)
  have m: "?n div 64 mod 64 < 64" "?n mod 64 < 64" by simp_all
  have "b64_val CHR ''='' = None" by (simp add: b64_val_def byte_of_def)
  then show ?case
    by (simp only: b64_encode.simps Let_def b64_quanta.simps b64_val_char [OF d] b64_val_char [OF m(1)] b64_val_char [OF m(2)]
      split_conv option.case simp_thms if_True b) simp
next
  case (4 a b c s)
  let ?n = "(byte_of a * 256 + byte_of b) * 256 + byte_of c"
  have d: "?n div 64 div 64 div 64 < 64" by (rule b64_tops)
  have m: "?n div 64 div 64 mod 64 < 64" "?n div 64 mod 64 < 64" "?n mod 64 < 64" by simp_all
  have "b64_quanta (b64_encode (a # b # c # s)) =
      map_option (\<lambda>r. bytes3 (((?n div 64 div 64 div 64 * 64 + ?n div 64 div 64 mod 64) * 64 + ?n div 64 mod 64) * 64 + ?n mod 64) @ r)
        (b64_quanta (b64_encode s))"
    by (simp only: b64_encode.simps Let_def append_Cons append_Nil b64_quanta.simps b64_val_char [OF d] b64_val_char [OF m(1)]
      b64_val_char [OF m(2)] b64_val_char [OF m(3)] split_conv option.case)
  then show ?case using 4 by (simp only: base64_digits bytes3_of option.map append_Cons append_Nil)
qed simp

lemma b64_alphabet_no_eol: "b64_alphabet c \<Longrightarrow> c \<noteq> CR \<and> c \<noteq> LF"
  by (auto simp: b64_alphabet_def b64_val_def byte_of_def Let_def)

lemma length_b64_encode: "length (b64_encode s) = 4 * ((length s + 2) div 3)"
  by (induction s rule: b64_encode.induct) (simp_all add: Let_def, presburger)

text \<open>Decoding undoes encoding.\<close>

lemma b64_decode_encode [simp]: "b64_decode (b64_encode s) = Some s"
proof -
  have "filter (\<lambda>c. c \<noteq> CR \<and> c \<noteq> LF) (b64_encode s) = b64_encode s"
    using b64_encode_alphabet [of s] b64_alphabet_no_eol by (intro filter_id_conv [THEN iffD2]) (auto simp: list_all_iff)
  then show ?thesis by (simp add: b64_decode_def b64_quanta_encode)
qed

end
