(* ===== verification/Cookie.thy ===== *)
theory Cookie
  imports Base64 Viewers
begin

text \<open>
  Cookies, \<open>ext/cookie/cookie.go\<close>: base64-encoded values, and values signed with an HMAC over
  name, time and value.

  \<open>crypto/hmac\<close> with SHA-256 is the parameter \<open>mac\<close>, a function of key and message whose
  results have 32 bytes. Of a \<open>time.Time\<close> only what RFC 3339 keeps is modelled: the fields of
  the UTC time to the second, for the years 0 to 9999.
\<close>

section \<open>Times in RFC 3339\<close>

definition format_time :: "utc \<Rightarrow> string" where
  "format_time t =
     pad4 (ut_year t) @ ''-'' @ pad2 (ut_month t) @ ''-'' @ pad2 (ut_day t) @ ''T'' @
     pad2 (ut_hour t) @ '':'' @ pad2 (ut_min t) @ '':'' @ pad2 (ut_sec t) @ ''Z''"

definition days_in :: "nat \<Rightarrow> nat \<Rightarrow> nat" where
  "days_in m y =
     (if m \<in> {4, 6, 9, 11} then 30
      else if m = 2 then (if y mod 4 = 0 \<and> (y mod 100 \<noteq> 0 \<or> y mod 400 = 0) then 29 else 28)
      else 31)"

definition valid_utc :: "utc \<Rightarrow> bool" where
  "valid_utc t \<longleftrightarrow> ut_year t \<le> 9999 \<and> 1 \<le> ut_month t \<and> ut_month t \<le> 12 \<and> 1 \<le> ut_day t \<and>
     ut_day t \<le> days_in (ut_month t) (ut_year t) \<and> ut_hour t < 24 \<and> ut_min t < 60 \<and> ut_sec t < 60"

definition num2 :: "char \<Rightarrow> char \<Rightarrow> nat option" where
  "num2 a b = (if is_digit a \<and> is_digit b then Some (10 * digit_val a + digit_val b) else None)"

text \<open>\<open>time.Parse(time.RFC3339, s)\<close> for a string of 20 bytes, where only this form fits.\<close>

definition parse_time :: "string \<Rightarrow> utc option" where
  "parse_time s =
     (case s of
        [y1, y2, y3, y4, d1, m1, m2, d2, a1, a2, tt, h1, h2, c1, i1, i2, c2, s1, s2, z] \<Rightarrow>
          if d1 = CHR ''-'' \<and> d2 = CHR ''-'' \<and> tt = CHR ''T'' \<and> c1 = CHR '':'' \<and> c2 = CHR '':'' \<and> z = CHR ''Z''
          then (case (num2 y1 y2, num2 y3 y4, num2 m1 m2, num2 a1 a2, num2 h1 h2, num2 i1 i2, num2 s1 s2) of
                  (Some yh, Some yl, Some mo, Some da, Some ho, Some mi, Some se) \<Rightarrow>
                    let t = \<lparr>ut_year = 100 * yh + yl, ut_month = mo, ut_day = da, ut_hour = ho, ut_min = mi, ut_sec = se\<rparr>
                    in if valid_utc t then Some t else None
                | _ \<Rightarrow> None)
          else None
      | _ \<Rightarrow> None)"

section \<open>Cookies of the package http\<close>

datatype same_site = SameSiteUnset | SameSiteLax | SameSiteStrict | SameSiteNone

text \<open>\<open>http.Cookie\<close>; \<open>ck_domain\<close> and \<open>ck_expires\<close> hold what is written, when it is valid.\<close>

record cookie =
  ck_name :: string
  ck_value :: string
  ck_quoted :: bool
  ck_path :: string
  ck_domain :: "string option"
  ck_expires :: "string option"
  ck_max_age :: int
  ck_secure :: bool
  ck_http_only :: bool
  ck_same_site :: same_site

definition valid_cookie_byte :: "char \<Rightarrow> bool" where
  "valid_cookie_byte c \<longleftrightarrow> 32 \<le> byte_of c \<and> byte_of c < 127 \<and> c \<noteq> DQUOTE \<and> c \<noteq> CHR '';'' \<and> byte_of c \<noteq> 92"

definition sanitize_value :: "string \<Rightarrow> bool \<Rightarrow> string" where
  "sanitize_value v quoted =
     (let u = filter valid_cookie_byte v
      in if u = [] then u
         else if SP \<in> set u \<or> CHR '','' \<in> set u \<or> quoted then [DQUOTE] @ u @ [DQUOTE] else u)"

definition sanitize_path :: "string \<Rightarrow> string" where
  "sanitize_path p = filter (\<lambda>c. 32 \<le> byte_of c \<and> byte_of c < 127 \<and> c \<noteq> CHR '';'') p"

definition cookie_attrs :: "cookie \<Rightarrow> string" where
  "cookie_attrs ck =
     (if ck_path ck \<noteq> [] then ''; Path='' @ sanitize_path (ck_path ck) else []) @
     (case ck_domain ck of None \<Rightarrow> [] | Some d \<Rightarrow> ''; Domain='' @ d) @
     (case ck_expires ck of None \<Rightarrow> [] | Some e \<Rightarrow> ''; Expires='' @ e) @
     (if 0 < ck_max_age ck then ''; Max-Age='' @ itoa (ck_max_age ck)
      else if ck_max_age ck < 0 then ''; Max-Age=0'' else []) @
     (if ck_http_only ck then ''; HttpOnly'' else []) @
     (if ck_secure ck then ''; Secure'' else []) @
     (case ck_same_site ck of
        SameSiteUnset \<Rightarrow> [] | SameSiteLax \<Rightarrow> ''; SameSite=Lax'' | SameSiteStrict \<Rightarrow> ''; SameSite=Strict''
      | SameSiteNone \<Rightarrow> ''; SameSite=None'')"

definition is_token :: "string \<Rightarrow> bool" where
  "is_token s \<longleftrightarrow> s \<noteq> [] \<and> list_all is_token_char s"

text \<open>\<open>Cookie.String\<close>: empty when the name is no token.\<close>

definition cookie_string :: "cookie \<Rightarrow> string" where
  "cookie_string ck =
     (if is_token (ck_name ck)
      then ck_name ck @ ''='' @ sanitize_value (ck_value ck) (ck_quoted ck) @ cookie_attrs ck else [])"

definition http_set_cookie :: "cookie \<Rightarrow> ctx \<Rightarrow> ctx" where
  "http_set_cookie ck c =
     (if cookie_string ck = [] then c
      else c\<lparr>c_rw := rw_map_header (\<lambda>h. hdr_add h ''Set-Cookie'' (cookie_string ck)) (c_rw c)\<rparr>)"

section \<open>Plain and signed cookies\<close>

definition err_value_too_long :: gerr where "err_value_too_long = ErrMsg ''cookie value too long''"
definition err_invalid_value :: gerr where "err_invalid_value = ErrMsg ''invalid cookie value''"
definition err_no_cookie :: gerr where "err_no_cookie = ErrMsg ''http: named cookie not present''"

definition cookie_set :: "cookie \<Rightarrow> ctx \<Rightarrow> gerr option \<times> ctx" where
  "cookie_set v c =
     (let v1 = v\<lparr>ck_value := b64_encode (ck_value v)\<rparr>
      in if 4096 < length (cookie_string v1) then (Some err_value_too_long, c)
         else (None, http_set_cookie v1 c))"

definition cookie_get :: "ctx \<Rightarrow> string \<Rightarrow> gerr + string" where
  "cookie_get c name =
     (case req_cookie (c_req c) name of
        None \<Rightarrow> Inl err_no_cookie
      | Some v \<Rightarrow> (case b64_decode v of None \<Rightarrow> Inl err_invalid_value | Some s \<Rightarrow> Inr s))"

text \<open>Deleting expires the cookie at \<open>time.Unix(0, 0)\<close>, written as an HTTP date.\<close>

definition cookie_delete :: "cookie \<Rightarrow> ctx \<Rightarrow> ctx" where
  "cookie_delete v c =
     http_set_cookie (v\<lparr>ck_expires := Some ''Thu, 01 Jan 1970 00:00:00 GMT'', ck_max_age := -1, ck_value := []\<rparr>) c"

type_synonym mac = "string \<Rightarrow> string \<Rightarrow> string"

definition sha256_size :: nat where "sha256_size = 32"

definition sign_value :: "mac \<Rightarrow> string \<Rightarrow> string \<Rightarrow> string \<Rightarrow> utc \<Rightarrow> string \<times> string" where
  "sign_value mac key name value ts =
     (let v = format_time ts; signature = mac key (name @ v @ value)
      in (signature, signature @ v @ value))"

definition cookie_set_signed :: "mac \<Rightarrow> utc \<Rightarrow> cookie \<Rightarrow> string \<Rightarrow> ctx \<Rightarrow> utc \<times> gerr option \<times> ctx" where
  "cookie_set_signed mac now v key c =
     (let v1 = v\<lparr>ck_value := snd (sign_value mac key (ck_name v) (ck_value v) now)\<rparr>
      in (now, cookie_set v1 c))"

definition cookie_get_signed :: "mac \<Rightarrow> ctx \<Rightarrow> string \<Rightarrow> string \<Rightarrow> gerr + string \<times> utc" where
  "cookie_get_signed mac c name key =
     (case cookie_get c name of
        Inl e \<Rightarrow> Inl e
      | Inr sv \<Rightarrow>
          if length sv < sha256_size + 20 then Inl err_invalid_value
          else (let signature = take sha256_size sv;
                    tv = take 20 (drop sha256_size sv);
                    value = drop (sha256_size + 20) sv
                in (case parse_time tv of
                      None \<Rightarrow> Inl err_invalid_value
                    | Some ts \<Rightarrow>
                        if signature \<noteq> fst (sign_value mac key name value ts) then Inl err_invalid_value
                        else Inr (value, ts))))"

section \<open>Formatting and parsing times\<close>

lemma num2_pad2: "n < 100 \<Longrightarrow> num2 (digit (n div 10)) (digit (n mod 10)) = Some n"
proof -
  assume "n < 100"
  then have "n div 10 < 10" "n mod 10 < 10" by linarith+
  then show ?thesis by (simp add: num2_def is_digit_digit digit_val_digit)
qed

lemma length_pad [simp]: "length (pad2 n) = 2" "length (pad4 n) = 4"
  by (simp_all add: pad2_def pad4_def)

lemma length_format_time [simp]: "length (format_time t) = 20"
  by (simp add: format_time_def)

lemma days_in_le: "days_in m y \<le> 31"
  by (simp add: days_in_def)

lemma parse_format_time:
  assumes "valid_utc t"
  shows "parse_time (format_time t) = Some t"
proof -
  have "ut_day t \<le> 31" using assms days_in_le [of "ut_month t" "ut_year t"] by (auto simp: valid_utc_def)
  then have l: "ut_year t div 100 < 100" "ut_year t mod 100 < 100" "ut_month t < 100" "ut_day t < 100" "ut_hour t < 100"
    "ut_min t < 100" "ut_sec t < 100"
    using assms by (auto simp: valid_utc_def)
  have "100 * (ut_year t div 100) + ut_year t mod 100 = ut_year t" by simp
  then have "parse_time (format_time t) =
      (let t1 = \<lparr>ut_year = ut_year t, ut_month = ut_month t, ut_day = ut_day t, ut_hour = ut_hour t, ut_min = ut_min t,
         ut_sec = ut_sec t\<rparr> in if valid_utc t1 then Some t1 else None)"
    by (simp add: parse_time_def format_time_def pad4_def pad2_def num2_pad2 [OF l(1)] num2_pad2 [OF l(2)]
      num2_pad2 [OF l(3)] num2_pad2 [OF l(4)] num2_pad2 [OF l(5)] num2_pad2 [OF l(6)] num2_pad2 [OF l(7)]
      del: div_mult2_eq)
  moreover have "\<lparr>ut_year = ut_year t, ut_month = ut_month t, ut_day = ut_day t, ut_hour = ut_hour t, ut_min = ut_min t,
      ut_sec = ut_sec t\<rparr> = t" by (cases t) simp
  ultimately show ?thesis using assms by (simp only: Let_def if_True)
qed

lemma pad2_num2: "num2 a b = Some n \<Longrightarrow> pad2 n = [a, b]"
proof -
  assume n: "num2 a b = Some n"
  have d: "digit (digit_val c) = c" "digit_val c < 10" if "is_digit c" for c
    using that by (auto simp: digit_def digit_val_def is_digit_def byte_of_def)
  from n d [of a] d [of b] show ?thesis
    by (auto simp: num2_def pad2_def split: if_splits)
qed

lemma num2_less: "num2 a b = Some n \<Longrightarrow> n < 100"
proof -
  assume n: "num2 a b = Some n"
  have "digit_val c < 10" if "is_digit c" for c
    using that by (auto simp: digit_val_def is_digit_def)
  from n this [of a] this [of b] show ?thesis by (auto simp: num2_def split: if_splits)
qed

lemma format_parse_time:
  assumes "parse_time s = Some t"
  shows "format_time t = s \<and> valid_utc t"
proof -
  obtain y1 y2 y3 y4 m1 m2 a1 a2 h1 h2 i1 i2 s1 s2 where
    s: "s = [y1, y2, y3, y4, CHR ''-'', m1, m2, CHR ''-'', a1, a2, CHR ''T'', h1, h2, CHR '':'', i1, i2, CHR '':'', s1, s2, CHR ''Z'']"
    using assms by (auto simp: parse_time_def split: list.splits if_splits)
  then obtain yh yl mo da ho mi se where
    n: "num2 y1 y2 = Some yh" "num2 y3 y4 = Some yl" "num2 m1 m2 = Some mo" "num2 a1 a2 = Some da" "num2 h1 h2 = Some ho"
      "num2 i1 i2 = Some mi" "num2 s1 s2 = Some se" and
    t: "t = \<lparr>ut_year = 100 * yh + yl, ut_month = mo, ut_day = da, ut_hour = ho, ut_min = mi, ut_sec = se\<rparr>" "valid_utc t"
    using assms by (auto simp: parse_time_def Let_def split: option.splits if_splits)
  have "pad4 (100 * yh + yl) = pad2 yh @ pad2 yl" using num2_less [OF n(2)] by (simp add: pad4_def)
  then show ?thesis using t by (simp add: format_time_def s pad2_num2 [OF n(1)] pad2_num2 [OF n(2)] pad2_num2 [OF n(3)]
    pad2_num2 [OF n(4)] pad2_num2 [OF n(5)] pad2_num2 [OF n(6)] pad2_num2 [OF n(7)])
qed

section \<open>What the browser keeps\<close>

text \<open>Of a \<open>Set-Cookie\<close> line: the name up to the equals sign, the value up to a semicolon.\<close>

definition browser_cookie :: "string \<Rightarrow> string \<times> string" where
  "browser_cookie line =
     (takeWhile (\<lambda>c. c \<noteq> CHR ''='') line,
      takeWhile (\<lambda>c. c \<noteq> CHR '';'') (drop 1 (dropWhile (\<lambda>c. c \<noteq> CHR ''='') line)))"

lemma cookie_attrs_start: "cookie_attrs ck = [] \<or> (\<exists>r. cookie_attrs ck = CHR '';'' # r)"
  by (auto simp: cookie_attrs_def split: option.splits same_site.splits)

lemma is_token_no_equals: "is_token s \<Longrightarrow> c \<in> set s \<Longrightarrow> c \<noteq> CHR ''='' \<and> c \<noteq> CHR '':''"
  by (auto simp: is_token_def list_all_iff is_token_char_def byte_of_def)

lemma b64_valid_cookie_byte: "b64_alphabet c \<Longrightarrow> valid_cookie_byte c \<and> c \<noteq> SP \<and> c \<noteq> CHR '','' \<and> c \<noteq> CHR '';''"
  by (auto simp: b64_alphabet_def b64_val_def valid_cookie_byte_def byte_of_def Let_def split: if_splits)

definition cookie_safe :: "char \<Rightarrow> bool" where
  "cookie_safe c \<longleftrightarrow> valid_cookie_byte c \<and> c \<noteq> SP \<and> c \<noteq> CHR '',''"

lemma sanitize_safe: "list_all cookie_safe v \<Longrightarrow> sanitize_value v False = v"
proof -
  assume v: "list_all cookie_safe v"
  then have "filter valid_cookie_byte v = v" by (intro filter_True) (simp add: list_all_iff cookie_safe_def)
  moreover have "SP \<notin> set v" "CHR '','' \<notin> set v" using v by (auto simp: list_all_iff cookie_safe_def)
  ultimately show ?thesis by (simp add: sanitize_value_def Let_def)
qed

lemma b64_safe: "list_all cookie_safe (b64_encode s)"
  using b64_encode_alphabet [of s] b64_valid_cookie_byte by (fastforce simp: list_all_iff cookie_safe_def)

lemma sanitize_b64: "sanitize_value (b64_encode s) False = b64_encode s"
  by (rule sanitize_safe [OF b64_safe])

lemma browser_keeps_safe:
  assumes "is_token (ck_name ck)" "list_all cookie_safe (ck_value ck)" "\<not> ck_quoted ck"
  shows "browser_cookie (cookie_string ck) = (ck_name ck, ck_value ck)"
proof -
  have n: "\<forall>c\<in>set (ck_name ck). c \<noteq> CHR ''=''" using is_token_no_equals [OF assms(1)] by blast
  have "\<forall>c\<in>set (ck_value ck). c \<noteq> CHR '';''"
    using assms(2) by (auto simp: list_all_iff cookie_safe_def valid_cookie_byte_def)
  moreover have "takeWhile (\<lambda>c. c \<noteq> CHR '';'') (cookie_attrs ck) = []"
    using cookie_attrs_start [of ck] by (elim disjE exE) simp_all
  ultimately have "takeWhile (\<lambda>c. c \<noteq> CHR '';'') (ck_value ck @ cookie_attrs ck) = ck_value ck"
    by (simp add: takeWhile_append2)
  with n assms show ?thesis
    by (simp add: browser_cookie_def cookie_string_def sanitize_safe takeWhile_append2 dropWhile_append2)
qed

lemma set_cookie_header:
  "cookie_string ck \<noteq> [] \<Longrightarrow> \<exists>vs. rw_header (c_rw (http_set_cookie ck c)) (canonical_key ''Set-Cookie'') = Some (vs @ [cookie_string ck])"
  by (simp add: http_set_cookie_def rw_map_header_def rw_header_def hdr_add_def)

section \<open>The signed text determines its parts\<close>

lemma pad2_no_colon: "k < 100 \<Longrightarrow> CHR '':'' \<notin> set (pad2 k)"
proof -
  assume "k < 100"
  then have "is_digit (digit (k div 10))" "is_digit (digit (k mod 10))" by (auto intro: is_digit_digit)
  then show ?thesis by (auto simp: pad2_def dest: is_digit_plain)
qed

lemma index_format_time:
  assumes "CHR '':'' \<notin> set n" "valid_utc t"
  shows "index_byte (n @ format_time t @ v) CHR '':'' = Some (length n + 13)"
proof -
  let ?p = "n @ pad4 (ut_year t) @ ''-'' @ pad2 (ut_month t) @ ''-'' @ pad2 (ut_day t) @ ''T'' @ pad2 (ut_hour t)"
  have "ut_day t \<le> 31" using assms(2) days_in_le [of "ut_month t" "ut_year t"] by (auto simp: valid_utc_def)
  moreover have "ut_year t div 100 < 100" using assms(2) by (simp add: valid_utc_def less_mult_imp_div_less)
  ultimately have "CHR '':'' \<notin> set ?p"
    using assms by (simp add: valid_utc_def pad4_def pad2_no_colon)
  then have "index_byte (?p @ CHR '':'' # (pad2 (ut_min t) @ '':'' @ pad2 (ut_sec t) @ ''Z'' @ v)) CHR '':'' = Some (length ?p)"
    by (rule index_byte_append_Cons)
  then show ?thesis by (simp add: format_time_def)
qed

lemma signed_text_injective:
  assumes "n @ format_time t @ v = n0 @ format_time t0 @ v0"
    and "CHR '':'' \<notin> set n" "CHR '':'' \<notin> set n0" "valid_utc t" "valid_utc t0"
  shows "n = n0 \<and> t = t0 \<and> v = v0"
proof -
  have "Some (length n + 13) = Some (length n0 + 13)"
    by (simp only: index_format_time [OF assms(2,4), of v, symmetric] index_format_time [OF assms(3,5), of v0, symmetric] assms(1))
  then have "length n = length n0" by simp
  then have n: "n = n0 \<and> format_time t @ v = format_time t0 @ v0"
    using assms(1) append_eq_append_conv [of n n0 "format_time t @ v" "format_time t0 @ v0"] by blast
  have "length (format_time t) = length (format_time t0)" by simp
  then have f: "format_time t = format_time t0 \<and> v = v0"
    using n append_eq_append_conv [of "format_time t" "format_time t0" v v0] by blast
  have "Some t = Some t0"
    by (simp only: parse_format_time [OF assms(4), symmetric] parse_format_time [OF assms(5), symmetric] f)
  with n f show ?thesis by simp
qed

section \<open>Properties\<close>

text \<open>
  C19: a signed cookie comes back. When \<open>SetSigned\<close> accepts a cookie, a request that carries
  what the browser keeps of the \<open>Set-Cookie\<close> line gives \<open>GetSigned\<close> the value and the time
  it was signed, whatever the attributes of the cookie and whatever the value's bytes are;
  it refuses exactly the cookies whose line is longer than 4096 bytes.
\<close>

theorem signed_cookie_roundtrip:
  assumes "\<forall>m. length (mac key m) = sha256_size" and "valid_utc now" and "is_token (ck_name ck)" and "\<not> ck_quoted ck"
    and "cookie_set_signed mac now ck key c = (ts, err, c1)"
  shows "(err = None \<longleftrightarrow> length (cookie_string (ck\<lparr>ck_value := b64_encode (snd (sign_value mac key (ck_name ck) (ck_value ck) now))\<rparr>)) \<le> 4096) \<and>
    (err = None \<longrightarrow> (\<exists>vs line. rw_header (c_rw c1) (canonical_key ''Set-Cookie'') = Some (vs @ [line]) \<and>
       (\<forall>c2. req_cookie (c_req c2) (ck_name ck) = Some (snd (browser_cookie line)) \<longrightarrow>
          cookie_get_signed mac c2 (ck_name ck) key = Inr (ck_value ck, now))))"
proof -
  let ?text = "snd (sign_value mac key (ck_name ck) (ck_value ck) now)"
  let ?ck = "ck\<lparr>ck_value := b64_encode ?text\<rparr>"
  have tx: "?text = mac key (ck_name ck @ format_time now @ ck_value ck) @ format_time now @ ck_value ck"
    by (simp add: sign_value_def Let_def)
  have set: "err = None \<longleftrightarrow> length (cookie_string ?ck) \<le> 4096" "err = None \<Longrightarrow> c1 = http_set_cookie ?ck c"
    using assms(5) by (auto simp: cookie_set_signed_def cookie_set_def Let_def split: if_splits)
  have ne: "cookie_string ?ck \<noteq> []" using assms(3) by (simp add: cookie_string_def)
  have b: "snd (browser_cookie (cookie_string ?ck)) = b64_encode ?text"
    using browser_keeps_safe [of ?ck] b64_safe [of ?text] assms(3,4) by simp
  have "cookie_get_signed mac c2 (ck_name ck) key = Inr (ck_value ck, now)"
    if "req_cookie (c_req c2) (ck_name ck) = Some (b64_encode ?text)" for c2
    using that assms(1) parse_format_time [OF assms(2)]
    by (simp add: cookie_get_signed_def cookie_get_def tx Let_def) (simp add: sign_value_def Let_def)
  then show ?thesis using set set_cookie_header [OF ne, of c] b by auto
qed

text \<open>
  C20: a signed cookie is authentic. If nobody but the server can produce signatures with its
  key, that is, if a cookie of the request that carries a correct signature carries one of a
  text which was signed for an issued cookie, then \<open>GetSigned\<close> only returns a value and a time that were
  issued under exactly this name: no part can be moved between name, time and value.
\<close>

theorem signed_cookie_authentic:
  assumes "cookie_get_signed mac c name key = Inr (value, ts)" and "CHR '':'' \<notin> set name"
    and "\<forall>(n0, v0, t0) \<in> issued. CHR '':'' \<notin> set n0 \<and> valid_utc t0"
    and "\<forall>t v. cookie_get c name = Inr (mac key (name @ format_time t @ v) @ format_time t @ v) \<longrightarrow>
      (\<exists>(n0, v0, t0) \<in> issued. name @ format_time t @ v = n0 @ format_time t0 @ v0)"
  shows "(name, value, ts) \<in> issued"
proof -
  from assms(1) obtain sv tv where sv: "cookie_get c name = Inr sv" "sha256_size + 20 \<le> length sv"
    and tv: "tv = take 20 (drop sha256_size sv)" "parse_time tv = Some ts" and vl: "value = drop (sha256_size + 20) sv"
    and sig: "take sha256_size sv = fst (sign_value mac key name value ts)"
    by (auto simp: cookie_get_signed_def Let_def split: sum.splits if_splits option.splits)
  have ts: "valid_utc ts" "tv = format_time ts" using format_parse_time [OF tv(2)] by simp_all
  let ?m = "name @ format_time ts @ value"
  have "sv = mac key ?m @ drop sha256_size sv"
    using append_take_drop_id [of sha256_size sv, symmetric] unfolding sig sign_value_def by (simp only: Let_def fst_conv)
  moreover have "drop sha256_size sv = format_time ts @ value"
    using append_take_drop_id [of 20 "drop sha256_size sv", symmetric] tv(1) vl ts(2) by (simp add: add.commute)
  ultimately have "cookie_get c name = Inr (mac key ?m @ format_time ts @ value)" using sv(1) by simp
  then have "\<exists>(n0, v0, t0) \<in> issued. ?m = n0 @ format_time t0 @ v0" using assms(4) by blast
  then obtain n0 v0 t0 where i: "(n0, v0, t0) \<in> issued" "?m = n0 @ format_time t0 @ v0" by blast
  have "CHR '':'' \<notin> set n0 \<and> valid_utc t0" using assms(3) i(1) by blast
  then have "name = n0 \<and> ts = t0 \<and> value = v0"
    using signed_text_injective [OF i(2) assms(2)] ts(1) by blast
  with i(1) show ?thesis by simp
qed

section \<open>Witnesses\<close>

definition demo_mac :: mac where
  "demo_mac key m = take 32 (key @ m @ replicate 32 CHR ''.'')"

definition demo_time :: utc where
  "demo_time = \<lparr>ut_year = 2024, ut_month = 2, ut_day = 29, ut_hour = 13, ut_min = 5, ut_sec = 59\<rparr>"

definition demo_cookie :: cookie where
  "demo_cookie =
     \<lparr>ck_name = ''sid'', ck_value = ''a;b'', ck_quoted = False, ck_path = ''/'', ck_domain = None, ck_expires = None,
      ck_max_age = 60, ck_secure = True, ck_http_only = True, ck_same_site = SameSiteLax\<rparr>"

lemma demo_mac_length: "\<forall>m. length (demo_mac key m) = sha256_size"
  by (auto simp: demo_mac_def sha256_size_def min_def)

lemma demo_time_valid: "valid_utc demo_time"
  by (simp add: valid_utc_def demo_time_def days_in_def)

lemma demo_cookie_token: "is_token (ck_name demo_cookie)" "\<not> ck_quoted demo_cookie"
  by (simp_all add: demo_cookie_def is_token_def is_token_char_def byte_of_def)

lemma demo_cookie_short:
  "length (cookie_string (demo_cookie\<lparr>ck_value := b64_encode (snd (sign_value demo_mac ''k'' ''sid'' ''a;b'' demo_time))\<rparr>)) \<le> 4096"
proof -
  have "length (snd (sign_value demo_mac ''k'' ''sid'' ''a;b'' demo_time)) = 55"
    using demo_mac_length by (simp add: sign_value_def Let_def sha256_size_def)
  moreover have "length (itoa 60) \<le> 20" by (simp add: itoa_def dec_digits.simps)
  ultimately show ?thesis
    by (simp add: cookie_string_def cookie_attrs_def demo_cookie_def sanitize_b64 length_b64_encode sanitize_path_def
      is_token_def is_token_char_def byte_of_def)
qed

lemma signed_cookie_roundtrip_witness:
  "\<exists>ts c1 vs line. cookie_set_signed demo_mac demo_time demo_cookie ''k'' (demo_ctx (plain_request ''GET'' ''/'')) = (ts, None, c1) \<and>
     rw_header (c_rw c1) (canonical_key ''Set-Cookie'') = Some (vs @ [line]) \<and>
     (\<forall>c2. req_cookie (c_req c2) ''sid'' = Some (snd (browser_cookie line)) \<longrightarrow>
        cookie_get_signed demo_mac c2 ''sid'' ''k'' = Inr (''a;b'', demo_time))"
proof -
  let ?c = "demo_ctx (plain_request ''GET'' ''/'')"
  obtain ts err c1 where s: "cookie_set_signed demo_mac demo_time demo_cookie ''k'' ?c = (ts, err, c1)"
    by (cases "cookie_set_signed demo_mac demo_time demo_cookie ''k'' ?c") auto
  have n: "ck_name demo_cookie = ''sid''" "ck_value demo_cookie = ''a;b''" by (simp_all add: demo_cookie_def)
  note rt = signed_cookie_roundtrip [OF demo_mac_length demo_time_valid demo_cookie_token s, unfolded n]
  then have "err = None" using demo_cookie_short by blast
  with rt s show ?thesis by blast
qed

lemma signed_cookie_authentic_witness:
  "\<exists>c. cookie_get_signed demo_mac c ''sid'' ''k'' = Inr (''a;b'', demo_time) \<and>
     (''sid'', ''a;b'', demo_time) \<in> {(''sid'', ''a;b'', demo_time)}"
proof -
  let ?text = "snd (sign_value demo_mac ''k'' ''sid'' ''a;b'' demo_time)"
  let ?c = "demo_ctx ((plain_request ''GET'' ''/'')\<lparr>r_cookies := [(''sid'', b64_encode ?text)]\<rparr>)"
  have g: "cookie_get ?c ''sid'' = Inr ?text" by (simp add: cookie_get_def req_cookie_def demo_ctx_def)
  have tx: "?text = demo_mac ''k'' (''sid'' @ format_time demo_time @ ''a;b'') @ format_time demo_time @ ''a;b''"
    by (simp add: sign_value_def Let_def)
  have l: "length (demo_mac key m) = 32" for key m using demo_mac_length by (simp add: sha256_size_def)
  have get: "cookie_get_signed demo_mac ?c ''sid'' ''k'' = Inr (''a;b'', demo_time)"
    using parse_format_time [OF demo_time_valid] l g
    by (simp add: cookie_get_signed_def sign_value_def sha256_size_def Let_def)
  have "\<forall>t v. cookie_get ?c ''sid'' = Inr (demo_mac ''k'' (''sid'' @ format_time t @ v) @ format_time t @ v) \<longrightarrow>
      (\<exists>(n0, v0, t0) \<in> {(''sid'', ''a;b'', demo_time)}. ''sid'' @ format_time t @ v = n0 @ format_time t0 @ v0)"
  proof (intro allI impI)
    fix t v
    assume "cookie_get ?c ''sid'' = Inr (demo_mac ''k'' (''sid'' @ format_time t @ v) @ format_time t @ v)"
    with g have "?text = demo_mac ''k'' (''sid'' @ format_time t @ v) @ format_time t @ v" by (metis (no_types) sum.inject(2))
    with tx have "demo_mac ''k'' (''sid'' @ format_time t @ v) @ format_time t @ v =
        demo_mac ''k'' (''sid'' @ format_time demo_time @ ''a;b'') @ format_time demo_time @ ''a;b''"
      by (simp only:)
    then have "format_time t @ v = format_time demo_time @ ''a;b''"
      using l append_eq_append_conv [of "demo_mac ''k'' (''sid'' @ format_time t @ v)"
          "demo_mac ''k'' (''sid'' @ format_time demo_time @ ''a;b'')"] by (metis (no_types))
    then show "\<exists>(n0, v0, t0) \<in> {(''sid'', ''a;b'', demo_time)}. ''sid'' @ format_time t @ v = n0 @ format_time t0 @ v0"
      by simp
  qed
  moreover have "CHR '':'' \<notin> set ''sid''" by simp
  ultimately show ?thesis
    using signed_cookie_authentic [OF get, of "{(''sid'', ''a;b'', demo_time)}"] get demo_time_valid by auto
qed

end
