(* ===== verification/Script.thy ===== *)
theory Script
  imports Viewers
begin

text \<open>
  The handler of an embedded script, which \<open>ext/csrf\<close> and \<open>ext/htmx\<close> write alike: the tag, the
  conditional request, the content.
\<close>

definition serve_script :: "env \<Rightarrow> string \<Rightarrow> string \<Rightarrow> string \<Rightarrow> handler" where
  "serve_script env name etag buf c =
     (let c1 = set_resp_header ''ETag'' etag c
      in do {
        (done, w) \<leftarrow> write_if_none_match (c_req c1) (c_rw c1);
        let c2 = c1\<lparr>c_rw := w\<rparr>;
        if done then Some (None, c2)
        else (let c3 = set_resp_header ''Content-Type'' ''application/javascript'' c2
              in do {
                w3 \<leftarrow> e_serve_content env (c_req c3) name 0 buf (c_rw c3);
                Some (None, c3\<lparr>c_rw := w3\<rparr>)
              })
      })"

lemma hdr_get_set_resp: "hdr_get (rw_header (c_rw (set_resp_header k v c))) k' = (if same_key k k' then v else hdr_get (rw_header (c_rw c)) k')"
  by (simp add: set_resp_header_def rw_header_def rw_map_header_def hdr.get_set)

lemma same_key_etag: "same_key ''ETag'' ''Etag''" "\<not> same_key ''Content-Type'' ''Etag''" "same_key ''Content-Type'' ''Content-Type''"
  by code_simp+

lemma check_if_none_match_tags:
  assumes "\<And>t. t \<in> set ts \<Longrightarrow> valid_etag t" "ts \<noteq> []" "hdr_get (r_header r) ''If-None-Match'' = go_join ts '', ''"
  shows "check_if_none_match r w = (\<exists>t\<in>set ts. etag_weak_match t (hdr_get (rw_header w) ''Etag''))"
proof -
  have "go_join ts '', '' \<noteq> []" using join_tags_ends [OF assms(2,1)] by simp
  then show ?thesis using check_inm_list [OF assms(1)] assms(3) by (simp add: check_if_none_match_def)
qed

text \<open>A client without a tag gets the content, with the tag in the header it is served with.\<close>

lemma serve_script_content:
  assumes "hdr_get (r_header (c_req c)) ''If-None-Match'' = []"
  shows "\<exists>w. serve_script env name etag buf c =
      do { w3 \<leftarrow> e_serve_content env (c_req c) name 0 buf w; Some (None, c\<lparr>c_rw := w3\<rparr>) } \<and>
    hdr_get (rw_header w) ''Etag'' = etag \<and> hdr_get (rw_header w) ''Content-Type'' = ''application/javascript''"
proof -
  let ?c3 = "set_resp_header ''Content-Type'' ''application/javascript'' (set_resp_header ''ETag'' etag c)"
  have "\<not> check_if_none_match (c_req c) w" for w using assms by (simp add: check_if_none_match_def)
  then have "write_if_none_match (c_req c) w = Some (False, w)" for w by (simp add: write_if_none_match_def)
  moreover have "c\<lparr>c_rw := w3\<rparr> = ?c3\<lparr>c_rw := w3\<rparr>" for w3 by (simp add: set_resp_header_def)
  moreover have "hdr_get (rw_header (c_rw ?c3)) ''Etag'' = etag" "hdr_get (rw_header (c_rw ?c3)) ''Content-Type'' = ''application/javascript''"
    using same_key_etag by (simp_all add: hdr_get_set_resp)
  ultimately show ?thesis
    by (intro exI [of _ "c_rw ?c3"]) (simp add: serve_script_def Let_def)
qed

text \<open>A client that sends the tag back, among others, gets 304 and no content.\<close>

lemma serve_script_not_modified:
  assumes "r_method (c_req c) \<in> {''GET'', ''HEAD''}" "rw_code (c_rw c) = 0" "w_status (rw_under (c_rw c)) = None"
    and "hdr_get (r_header (c_req c)) ''If-None-Match'' = go_join ts '', ''" "etag \<in> set ts" "\<And>t. t \<in> set ts \<Longrightarrow> valid_etag t"
  shows "\<exists>c1. serve_script env name etag buf c = Some (None, c1) \<and> w_status (rw_under (c_rw c1)) = Some 304 \<and>
    w_body (rw_under (c_rw c1)) = w_body (rw_under (c_rw c))"
proof -
  let ?c1 = "set_resp_header ''ETag'' etag c"
  have "ts \<noteq> []" using assms(5) by auto
  have tag: "hdr_get (rw_header (c_rw ?c1)) ''Etag'' = etag" using same_key_etag by (simp add: hdr_get_set_resp)
  have "\<exists>t\<in>set ts. etag_weak_match t etag" using assms(5) by (auto simp: etag_weak_match_def)
  with \<open>ts \<noteq> []\<close> have "check_if_none_match (c_req ?c1) (c_rw ?c1)"
    using check_if_none_match_tags [of ts "c_req ?c1" "c_rw ?c1"] assms(4,6) unfolding tag by (simp add: set_resp_header_def)
  then show ?thesis
    using assms(1-3)
    by (auto simp: serve_script_def write_if_none_match_def Let_def write_not_modified_def std_write_header_def
        rw_map_header_def http_write_header_def map_delete_def set_resp_header_def)
qed

end
