(* ===== verification/Csrf.thy ===== *)
theory Csrf
  imports Cookie Script
begin

text \<open>
  Protection against cross-site requests, \<open>ext/csrf\<close>: the token and its cookie (\<open>token.go\<close>),
  the middleware and the script's handler (\<open>csrf.go\<close>), the options (\<open>option.go\<close>).

  \<open>crypto/hmac\<close> is the parameter \<open>mac\<close>, the 32 bytes of \<open>rand.Read\<close> (or its failure) the
  parameter \<open>rnd\<close>, the executed template of the embedded script the parameter \<open>script\<close>.
\<close>

section \<open>Options\<close>

record csrf_opts =
  cs_key :: string
  cs_cookie :: string
  cs_js :: bool

type_synonym csrf_option = "csrf_opts \<Rightarrow> csrf_opts"

definition default_cookie_name :: string where "default_cookie_name = ''csrf_token''"

definition with_cookie :: "string \<Rightarrow> csrf_option" where
  "with_cookie name o1 = (if name \<noteq> [] then o1\<lparr>cs_cookie := name\<rparr> else o1)"

definition with_js_token :: csrf_option where
  "with_js_token o1 = o1\<lparr>cs_js := True\<rparr>"

definition csrf_options :: "string \<Rightarrow> csrf_option list \<Rightarrow> csrf_opts" where
  "csrf_options key opts =
     fold (\<lambda>opt x. opt x) opts \<lparr>cs_key = key, cs_cookie = default_cookie_name, cs_js = False\<rparr>"

section \<open>Tokens\<close>

text \<open>\<open>verifyToken\<close>, on the value of the cookie, if the request has it.\<close>

definition verify_token :: "mac \<Rightarrow> string option \<Rightarrow> request \<Rightarrow> csrf_opts \<Rightarrow> bool" where
  "verify_token mac token r o1 =
     (case token of
        None \<Rightarrow> False
      | Some v \<Rightarrow>
          if cs_js o1 \<and> (case req_cookie r (''js_'' @ cs_cookie o1) of None \<Rightarrow> True | Some j \<Rightarrow> v \<noteq> j) then False
          else (case go_split v CHR ''.'' of
                  [a, b] \<Rightarrow>
                    (case b64_decode a of
                       None \<Rightarrow> False
                     | Some rnd \<Rightarrow>
                         (case b64_decode b of None \<Rightarrow> False | Some actual \<Rightarrow> mac (cs_key o1) rnd = actual))
                | _ \<Rightarrow> False))"

definition generate_token :: "mac \<Rightarrow> string option \<Rightarrow> csrf_opts \<Rightarrow> cookie option" where
  "generate_token mac rnd o1 =
     (case rnd of
        None \<Rightarrow> None
      | Some bytes \<Rightarrow>
          Some \<lparr>ck_name = cs_cookie o1, ck_value = b64_encode bytes @ ''.'' @ b64_encode (mac (cs_key o1) bytes),
                ck_quoted = False, ck_path = ''/'', ck_domain = None, ck_expires = None, ck_max_age = 0,
                ck_secure = False, ck_http_only = False, ck_same_site = SameSiteLax\<rparr>)"

definition set_token_cookie :: "mac \<Rightarrow> string option \<Rightarrow> csrf_opts \<Rightarrow> ctx \<Rightarrow> ctx" where
  "set_token_cookie mac rnd o1 c =
     (case generate_token mac rnd o1 of None \<Rightarrow> c | Some ck \<Rightarrow> http_set_cookie ck c)"

section \<open>Middleware and script\<close>

definition csrf_middleware :: "mac \<Rightarrow> string option \<Rightarrow> csrf_opts \<Rightarrow> middleware" where
  "csrf_middleware mac rnd o1 next c =
     (let token = req_cookie (c_req c) (cs_cookie o1); m = r_method (c_req c)
      in if m = ''GET'' \<or> m = ''HEAD'' \<or> m = ''OPTIONS''
         then next (if token = None then set_token_cookie mac rnd o1 c else c)
         else if \<not> verify_token mac token (c_req c) o1
         then do { c1 \<leftarrow> write_status 418 c; Some (Some ErrCancelled, c1) }
         else next c)"

definition csrf_handle_func :: "env \<Rightarrow> (csrf_opts \<Rightarrow> string) \<Rightarrow> csrf_opts \<Rightarrow> handler" where
  "csrf_handle_func env script o1 =
     (let buf = script o1;
          etag = compute_etag_with (Some (buf @ cs_key o1)) crc32_sum
      in serve_script env ''csrf.js'' etag buf)"

section \<open>Lemmas\<close>

lemma b64_no_dot: "CHR ''.'' \<notin> set (b64_encode s)"
proof -
  have "\<not> b64_alphabet CHR ''.''" by (simp add: b64_alphabet_def b64_val_def byte_of_def)
  then show ?thesis using b64_encode_alphabet [of s] by (auto simp: list_all_iff)
qed

lemma token_split: "go_split (b64_encode a @ CHR ''.'' # b64_encode b) CHR ''.'' = [b64_encode a, b64_encode b]"
  using b64_no_dot by (simp add: go_split_append_sep go_split_no_sep)

text \<open>What \<open>verifyToken\<close> accepts, by the parts of the token.\<close>

lemma verify_token_iff:
  "verify_token mac token r o1 \<longleftrightarrow>
     (\<exists>v a b rnd. token = Some v \<and> (cs_js o1 \<longrightarrow> req_cookie r (''js_'' @ cs_cookie o1) = Some v) \<and>
        go_split v CHR ''.'' = [a, b] \<and> b64_decode a = Some rnd \<and> b64_decode b = Some (mac (cs_key o1) rnd))"
  by (auto simp: verify_token_def split: option.splits list.splits if_splits)

lemma token_cookie_verifies:
  assumes "generate_token mac (Some bytes) o1 = Some ck"
    and "cs_js o1 \<longrightarrow> req_cookie r (''js_'' @ cs_cookie o1) = Some (ck_value ck)"
  shows "verify_token mac (Some (ck_value ck)) r o1"
  using assms token_split by (auto simp: verify_token_iff generate_token_def)

lemma token_cookie_kept:
  assumes "generate_token mac (Some bytes) o1 = Some ck" "is_token (cs_cookie o1)"
  shows "browser_cookie (cookie_string ck) = (cs_cookie o1, ck_value ck)"
proof -
  have "cookie_safe CHR ''.''" by (simp add: cookie_safe_def valid_cookie_byte_def byte_of_def)
  then have "list_all cookie_safe (ck_value ck)"
    using assms(1) b64_safe by (auto simp: generate_token_def)
  then show ?thesis using assms browser_keeps_safe [of ck] by (auto simp: generate_token_def)
qed

text \<open>
  The decision looks at nothing but the cookies, which the browser sends along with a request
  of any site: what protects is their \<open>SameSite\<close> attribute.
\<close>

lemma verification_only_cookies:
  "r_cookies r = r_cookies r' \<Longrightarrow> verify_token mac (req_cookie r n) r o1 = verify_token mac (req_cookie r' n) r' o1"
  by (simp add: verify_token_iff req_cookie_def)

section \<open>Properties\<close>


text \<open>
  C22: a token that is accepted is one the server made. An unsafe request reaches its handler
  only with a token whose two parts decode to some bytes and the HMAC of these bytes, and
  with the script's copy of it when that is asked for; every other is answered 418.
\<close>

theorem csrf_guards_unsafe:
  assumes "r_method (c_req c) \<notin> {''GET'', ''HEAD'', ''OPTIONS''}" and "rw_code (c_rw c) = 0" and "w_status (rw_under (c_rw c)) = None"
  shows "if \<exists>v a b bytes. req_cookie (c_req c) (cs_cookie o1) = Some v \<and>
        (cs_js o1 \<longrightarrow> req_cookie (c_req c) (''js_'' @ cs_cookie o1) = Some v) \<and> go_split v CHR ''.'' = [a, b] \<and>
        b64_decode a = Some bytes \<and> b64_decode b = Some (mac (cs_key o1) bytes)
    then \<forall>next. csrf_middleware mac rnd o1 next c = next c
    else \<exists>c1. rw_code (c_rw c1) = 418 \<and> (\<forall>next. csrf_middleware mac rnd o1 next c = Some (Some ErrCancelled, c1))"
  using assms verify_token_iff [of mac "req_cookie (c_req c) (cs_cookie o1)" "c_req c" o1]
  by (auto simp: csrf_middleware_def Let_def write_status_fresh simp del: not_ex split: if_splits)

section \<open>Witnesses\<close>

lemma demo_csrf_options: "cs_cookie (csrf_options ''k'' []) = ''csrf_token''" "\<not> cs_js (csrf_options ''k'' [])"
  by (simp_all add: csrf_options_def default_cookie_name_def)


lemma csrf_guards_unsafe_witness:
  "\<exists>c1. rw_code (c_rw c1) = 418 \<and> (\<forall>next. csrf_middleware demo_mac None (csrf_options ''k'' []) next
     (demo_ctx ((plain_request ''POST'' ''/'')\<lparr>r_cookies := [(''csrf_token'', ''a.b.c'')]\<rparr>)) = Some (Some ErrCancelled, c1))"
proof -
  let ?o = "csrf_options ''k'' []"
  let ?c = "demo_ctx ((plain_request ''POST'' ''/'')\<lparr>r_cookies := [(''csrf_token'', ''a.b.c'')]\<rparr>)"
  have c: "r_method (c_req ?c) \<notin> {''GET'', ''HEAD'', ''OPTIONS''}" "rw_code (c_rw ?c) = 0" "w_status (rw_under (c_rw ?c)) = None"
    by (simp_all add: demo_ctx_def plain_request_def new_response_writer_def new_http_rw_def)
  have "req_cookie (c_req ?c) (cs_cookie ?o) = Some ''a.b.c''" by (simp add: demo_ctx_def req_cookie_def demo_csrf_options)
  moreover have "go_split ''a.b.c'' CHR ''.'' = [''a'', ''b'', ''c'']" by simp
  ultimately show ?thesis using csrf_guards_unsafe [OF c, of ?o demo_mac None] by simp
qed

end
