(* ===== verification/Caching.thy ===== *)
theory Caching
  imports Routing
begin

text \<open>
  The middleware of \<open>ext/cache\<close>: rules by prefix and suffix of the path (\<open>option.go\<close>) and the
  \<open>Cache-Control\<close> field of the first one that matches (\<open>cache.go\<close>).

  A \<open>time.Duration\<close> is its number of nanoseconds. \<open>Duration.Seconds\<close> is a floating-point
  number, which is rounded, so \<open>int_seconds\<close> computes with its 53 bits.
\<close>

section \<open>Whole seconds of a duration\<close>

definition nanos :: nat where "nanos = 1000000000"

text \<open>The quotient rounded to nearest, to even on a tie.\<close>

definition round_even :: "nat \<Rightarrow> nat \<Rightarrow> nat" where
  "round_even a b =
     (let q = a div b; r = a mod b
      in if 2 * r < b \<or> (2 * r = b \<and> even q) then q else Suc q)"

fun bit_len :: "nat \<Rightarrow> nat" where
  "bit_len n = (if n = 0 then 0 else Suc (bit_len (n div 2)))"

declare bit_len.simps [simp del]

text \<open>
  \<open>int(d.Seconds())\<close> of a positive duration: \<open>float64(nsec) / 1e9\<close> as \<open>m\<close> units of
  \<open>2 ^ -k\<close>, then the sum with the seconds cut to 53 bits, then its integral part. A fraction
  of \<open>n\<close> nanoseconds needs no more than 82 binary places.
\<close>

definition int_seconds :: "nat \<Rightarrow> nat" where
  "int_seconds d =
     (let sec = d div nanos; nsec = d mod nanos
      in if nsec = 0 then sec
         else (let k = hd (filter (\<lambda>k. 2 ^ 52 * nanos \<le> nsec * 2 ^ k) [52..<83]);
                   m = round_even (nsec * 2 ^ k) nanos;
                   a = sec * 2 ^ k + m;
                   s = bit_len a - 53
               in round_even a (2 ^ s) * 2 ^ s div 2 ^ k))"

section \<open>Rules\<close>

record cache_rule =
  cr_starts :: string
  cr_ends :: string
  cr_duration :: int

definition fold_prefix :: "string \<Rightarrow> string \<Rightarrow> bool" where
  "fold_prefix s p = (if length s < length p then False else equal_fold (take (length p) s) p)"

definition fold_suffix :: "string \<Rightarrow> string \<Rightarrow> bool" where
  "fold_suffix s x = (if length s < length x then False else equal_fold (drop (length s - length x) s) x)"

definition rule_match :: "cache_rule \<Rightarrow> string \<Rightarrow> bool" where
  "rule_match r path =
     (if cr_starts r \<noteq> [] \<and> \<not> fold_prefix path (cr_starts r) then False
      else if cr_ends r \<noteq> [] \<and> \<not> fold_suffix path (cr_ends r) then False
      else True)"

text \<open>The option \<open>Match\<close>, on the rules collected so far.\<close>

definition match_option :: "string \<Rightarrow> string \<Rightarrow> int \<Rightarrow> cache_rule list \<Rightarrow> cache_rule list" where
  "match_option a b d rules =
     (if (a \<noteq> [] \<or> b \<noteq> []) \<and> d > 0
      then rules @ [\<lparr>cr_starts = a, cr_ends = b, cr_duration = d\<rparr>] else rules)"

definition cache_options :: "(cache_rule list \<Rightarrow> cache_rule list) list \<Rightarrow> cache_rule list" where
  "cache_options opts = fold (\<lambda>opt rules. opt rules) opts []"

section \<open>Middleware\<close>

fun apply_rules :: "cache_rule list \<Rightarrow> ctx \<Rightarrow> ctx" where
  "apply_rules [] c = c"
| "apply_rules (r # rules) c =
     (if rule_match r (r_path (c_req c))
      then write_header ''Cache-Control'' (''public, max-age='' @ itoa (int (int_seconds (nat (cr_duration r))))) c
      else apply_rules rules c)"

definition cache_middleware :: "cache_rule list \<Rightarrow> middleware" where
  "cache_middleware rules next c = next (apply_rules rules c)"

definition cache_new :: "(cache_rule list \<Rightarrow> cache_rule list) list \<Rightarrow> middleware" where
  "cache_new opts = cache_middleware (cache_options opts)"

section \<open>Lemmas\<close>

lemma fold_prefix_iff: "fold_prefix s p \<longleftrightarrow> has_prefix (to_lower s) (to_lower p)"
  by (simp add: fold_prefix_def has_prefix_def equal_fold_def to_lower_def take_map)

lemma fold_suffix_iff: "fold_suffix s x \<longleftrightarrow> has_suffix (to_lower s) (to_lower x)"
  by (simp add: fold_suffix_def has_suffix_def equal_fold_def to_lower_def drop_map)

lemma has_suffix_Nil [simp]: "has_suffix s []"
  by (simp add: has_suffix_def)

lemma to_lower_Nil [simp]: "to_lower [] = []"
  by (simp add: to_lower_def)

lemma rule_match_iff:
  "rule_match r path \<longleftrightarrow>
     has_prefix (to_lower path) (to_lower (cr_starts r)) \<and> has_suffix (to_lower path) (to_lower (cr_ends r))"
  by (auto simp: rule_match_def fold_prefix_iff fold_suffix_iff)

lemma apply_rules_find:
  "apply_rules rules c =
     (case find (\<lambda>r. rule_match r (r_path (c_req c))) rules of
        None \<Rightarrow> c
      | Some r \<Rightarrow> write_header ''Cache-Control'' (''public, max-age='' @ itoa (int (int_seconds (nat (cr_duration r))))) c)"
  by (induction rules) auto

lemma cache_options_matches:
  "cache_options (map (\<lambda>(a, b, d). match_option a b d) args) =
     map (\<lambda>(a, b, d). \<lparr>cr_starts = a, cr_ends = b, cr_duration = d\<rparr>)
       (filter (\<lambda>(a, b, d). (a \<noteq> [] \<or> b \<noteq> []) \<and> d > 0) args)"
proof -
  have "fold (\<lambda>opt rules. opt rules) (map (\<lambda>(a, b, d). match_option a b d) args) rules =
      rules @ map (\<lambda>(a, b, d). \<lparr>cr_starts = a, cr_ends = b, cr_duration = d\<rparr>)
        (filter (\<lambda>(a, b, d). (a \<noteq> [] \<or> b \<noteq> []) \<and> d > 0) args)" for rules
  proof (induction args arbitrary: rules)
    case (Cons x args)
    then show ?case by (cases x) (simp add: match_option_def)
  qed simp
  from this [of "[]"] show ?thesis by (simp add: cache_options_def)
qed

lemma find_filter_map:
  "find P (map f (filter Q xs)) = map_option f (find (\<lambda>x. Q x \<and> P (f x)) xs)"
  by (induction xs) auto

lemma int_seconds_whole: "int_seconds (n * nanos) = n"
  by (simp add: int_seconds_def nanos_def)

lemma round_even_le: "a \<le> c * b \<Longrightarrow> round_even a b \<le> c"
proof -
  assume le: "a \<le> c * b"
  show ?thesis
  proof (cases "a = c * b")
    case True
    then show ?thesis by (cases "b = 0") (auto simp: round_even_def)
  next
    case False
    with le have "a < c * b" by simp
    then have "a div b < c" by (simp add: less_mult_imp_div_less)
    then show ?thesis by (auto simp: round_even_def Let_def)
  qed
qed

lemma round_even_ge: "0 < b \<Longrightarrow> c * b \<le> a \<Longrightarrow> c \<le> round_even a b"
proof -
  assume "0 < b" "c * b \<le> a"
  then have "c \<le> a div b" by (simp add: less_eq_div_iff_mult_less_eq)
  then show ?thesis by (auto simp: round_even_def Let_def)
qed

lemma bit_len_le: "n < 2 ^ k \<Longrightarrow> bit_len n \<le> k"
proof (induction k arbitrary: n)
  case 0
  then show ?case by (simp add: bit_len.simps)
next
  case (Suc k)
  then have "n div 2 < 2 ^ k" by (simp add: less_mult_imp_div_less)
  from Suc.IH [OF this] show ?case by (subst bit_len.simps) simp
qed

text \<open>The float is less than a second off: the integral part is that of the duration or the next.\<close>

lemma int_seconds_bound:
  assumes "d < 2 ^ 63"
  shows "int_seconds d \<in> {d div nanos, Suc (d div nanos)}"
proof -
  define sec nsec where "sec = d div nanos" and "nsec = d mod nanos"
  define k where "k = hd (filter (\<lambda>k. 2 ^ 52 * nanos \<le> nsec * 2 ^ k) [52..<83])"
  define m where "m = round_even (nsec * 2 ^ k) nanos"
  define a where "a = sec * 2 ^ k + m"
  define s where "s = bit_len a - 53"
  have "nsec < nanos" by (simp add: nsec_def nanos_def)
  then have "m \<le> 2 ^ k" unfolding m_def by (intro round_even_le) simp
  then have a: "sec * 2 ^ k \<le> a" "a \<le> Suc sec * 2 ^ k" by (simp_all add: a_def)
  have "sec < 2 ^ 34" using assms by (simp add: sec_def nanos_def less_mult_imp_div_less)
  then have "Suc sec * 2 ^ k \<le> 2 ^ 34 * 2 ^ k" by (intro mult_right_mono) simp_all
  also have "\<dots> < 2 ^ 53 * (2 ^ k :: nat)" by simp
  finally have "a < 2 ^ (53 + k)" unfolding power_add using a(2) by (rule le_less_trans [rotated])
  then have "s \<le> k" using bit_len_le [of a "53 + k"] by (simp add: s_def)
  then have split: "c * 2 ^ k = c * 2 ^ (k - s) * 2 ^ s" for c :: nat by (simp flip: power_add)
  let ?r = "round_even a (2 ^ s) * 2 ^ s"
  have "sec * 2 ^ (k - s) \<le> round_even a (2 ^ s)" using a(1) unfolding split [of sec] by (intro round_even_ge) simp_all
  then have "sec * 2 ^ k \<le> ?r" unfolding split [of sec] by (rule mult_right_mono) simp
  then have lo: "sec \<le> ?r div 2 ^ k" by (simp add: less_eq_div_iff_mult_less_eq)
  have "round_even a (2 ^ s) \<le> Suc sec * 2 ^ (k - s)" using a(2) unfolding split [of "Suc sec"] by (rule round_even_le)
  then have "?r \<le> Suc sec * 2 ^ k" unfolding split [of "Suc sec"] by (rule mult_right_mono) simp
  then have "?r div 2 ^ k \<le> Suc sec * 2 ^ k div 2 ^ k" by (rule div_le_mono)
  then have "?r div 2 ^ k \<le> Suc sec" by simp
  with lo have "?r div 2 ^ k \<in> {sec, Suc sec}" by auto
  moreover have "int_seconds d = (if nsec = 0 then sec else ?r div 2 ^ k)"
    by (simp only: int_seconds_def Let_def sec_def nsec_def k_def m_def a_def s_def)
  ultimately show ?thesis by (simp add: sec_def)
qed

text \<open>
  The field is set before the handler has run, and nothing takes it back: when the handler
  fails, the 500 goes out with it, and shared caches may keep the failure.
\<close>

lemma failed_answer_cached:
  assumes "find (\<lambda>r. rule_match r (r_path (c_req c))) rules = Some r"
    and "rw_code (c_rw c) = 0" "w_status (rw_under (c_rw c)) = None" "log_id \<noteq> []"
    and "\<not> errors_is e ErrCancelled" "\<not> errors_is e ErrViewNotFound"
  shows "\<exists>c'. (do { (err, c1) \<leftarrow> cache_middleware rules (\<lambda>c. Some (Some e, c)) c; finish env k log_id err c1 }) = Some c' \<and>
    w_status (rw_under (c_rw c')) = Some 500 \<and>
    w_sent_header (rw_under (c_rw c')) ''Cache-Control'' =
      Some [''public, max-age='' @ itoa (int (int_seconds (nat (cr_duration r))))]"
proof -
  have "canonical_key ''Cache-Control'' = ''Cache-Control''" "canonical_key ''X-Log-Id'' = ''X-Log-Id''" by code_simp+
  then show ?thesis
    using assms by (simp add: cache_middleware_def apply_rules_find finish_def fail_500_def write_status_fresh)
      (simp add: write_header_def set_resp_header_def rw_map_header_def hdr_set_def)
qed

section \<open>Properties\<close>

text \<open>
  The first rule decides. Of the rules given to \<open>New\<close>, those with neither prefix nor suffix
  or without a positive duration are dropped; the first of the others that matches the path,
  both ends without regard to case, sets \<open>Cache-Control\<close> to its duration in seconds before
  the handler runs; without one the context goes on unchanged.
\<close>

theorem cache_first_rule:
  "cache_new (map (\<lambda>(a, b, d). match_option a b d) args) next c =
     next (case find (\<lambda>(a, b, d). (a, b) \<noteq> ([], []) \<and> d > 0 \<and>
                 (\<exists>t. to_lower (r_path (c_req c)) = to_lower a @ t) \<and>
                 (\<exists>t. to_lower (r_path (c_req c)) = t @ to_lower b)) args of
             None \<Rightarrow> c
           | Some (a, b, d) \<Rightarrow>
               write_header ''Cache-Control'' (''public, max-age='' @ itoa (int (int_seconds (nat d)))) c)"
proof -
  have "(\<lambda>x. (case x of (a, b, d) \<Rightarrow> (a \<noteq> [] \<or> b \<noteq> []) \<and> d > 0) \<and>
        rule_match (case x of (a, b, d) \<Rightarrow> \<lparr>cr_starts = a, cr_ends = b, cr_duration = d\<rparr>) (r_path (c_req c))) =
      (\<lambda>(a, b, d). (a, b) \<noteq> ([], []) \<and> d > 0 \<and> (\<exists>t. to_lower (r_path (c_req c)) = to_lower a @ t) \<and>
        (\<exists>t. to_lower (r_path (c_req c)) = t @ to_lower b))"
    by (auto simp: fun_eq_iff rule_match_iff has_prefix_iff has_suffix_iff)
  then show ?thesis
    by (simp add: cache_new_def cache_middleware_def apply_rules_find cache_options_matches find_filter_map
      split: option.split)
qed

end
