(* ===== verification/Htmx.thy ===== *)
theory Htmx
  imports Script
begin

text \<open>
  The htmx extension, \<open>ext/htmx\<close>: the interceptor (\<open>interceptor.go\<close>), the response header of any
  value and the library's handler (\<open>htmx.go\<close>), the request and response helpers (\<open>helpers.go\<close>).
\<close>

section \<open>Header names\<close>

definition hx_boosted :: string where "hx_boosted = ''HX-Boosted''"
definition hx_current_url :: string where "hx_current_url = ''HX-Current-Url''"
definition hx_history_restore_request :: string where "hx_history_restore_request = ''HX-History-Restore-Request''"
definition hx_prompt :: string where "hx_prompt = ''HX-Prompt''"
definition hx_request :: string where "hx_request = ''HX-Request''"
definition hx_target :: string where "hx_target = ''HX-Target''"
definition hx_trigger_name :: string where "hx_trigger_name = ''HX-Trigger-Name''"
definition hx_trigger :: string where "hx_trigger = ''HX-Trigger''"
definition hx_location :: string where "hx_location = ''HX-Location''"
definition hx_push_url :: string where "hx_push_url = ''HX-Push-Url''"
definition hx_redirect :: string where "hx_redirect = ''HX-Redirect''"
definition hx_refresh :: string where "hx_refresh = ''HX-Refresh''"
definition hx_replace_url :: string where "hx_replace_url = ''HX-Replace-Url''"
definition hx_reswap :: string where "hx_reswap = ''HX-Reswap''"
definition hx_retarget :: string where "hx_retarget = ''HX-Retarget''"
definition hx_reselect :: string where "hx_reselect = ''HX-Reselect''"
definition hx_trigger_after_settle :: string where "hx_trigger_after_settle = ''HX-Trigger-After-Settle''"
definition hx_trigger_after_swap :: string where "hx_trigger_after_swap = ''HX-Trigger-After-Swap''"

lemmas hx_names =
  hx_boosted_def hx_current_url_def hx_history_restore_request_def hx_prompt_def hx_request_def hx_target_def
  hx_trigger_name_def hx_trigger_def hx_location_def hx_push_url_def hx_redirect_def hx_refresh_def
  hx_replace_url_def hx_reswap_def hx_retarget_def hx_reselect_def hx_trigger_after_settle_def hx_trigger_after_swap_def

section \<open>Request\<close>

definition req_header :: "ctx \<Rightarrow> string \<Rightarrow> string" where
  "req_header c k = hdr_get (r_header (c_req c)) k"

definition is_hx_request :: "ctx \<Rightarrow> bool" where "is_hx_request c \<longleftrightarrow> req_header c hx_request = ''true''"
definition is_boosted :: "ctx \<Rightarrow> bool" where "is_boosted c \<longleftrightarrow> req_header c hx_boosted = ''true''"

definition is_history_restore :: "ctx \<Rightarrow> bool" where
  "is_history_restore c \<longleftrightarrow> req_header c hx_history_restore_request = ''true''"

definition htmx_target :: "ctx \<Rightarrow> string" where "htmx_target c = req_header c hx_target"
definition htmx_trigger :: "ctx \<Rightarrow> string" where "htmx_trigger c = req_header c hx_trigger"
definition htmx_trigger_name :: "ctx \<Rightarrow> string" where "htmx_trigger_name c = req_header c hx_trigger_name"
definition htmx_prompt :: "ctx \<Rightarrow> string" where "htmx_prompt c = req_header c hx_prompt"
definition htmx_current_url :: "ctx \<Rightarrow> string" where "htmx_current_url c = req_header c hx_current_url"

section \<open>Interceptor\<close>

definition ic_is_hx_request :: "ctx \<Rightarrow> bool" where "ic_is_hx_request c \<longleftrightarrow> req_header c hx_request = ''true''"

definition htmx_referer :: "ctx \<Rightarrow> string" where
  "htmx_referer c = (if ic_is_hx_request c then req_header c hx_current_url else [])"

definition htmx_redirect :: "ctx \<Rightarrow> string \<Rightarrow> int list \<Rightarrow> (bool \<times> ctx) option" where
  "htmx_redirect c url codes =
     (if ic_is_hx_request c
      then do { c1 \<leftarrow> write_status 200 (write_header ''HX-Redirect'' url c); Some (True, c1) }
      else Some (False, c))"

definition htmx_interceptor :: interceptor where
  "htmx_interceptor = \<lparr>ic_referer = htmx_referer, ic_redirect = htmx_redirect\<rparr>"

section \<open>Response\<close>

text \<open>
  \<open>WriteHeader\<close>: a string as it is, any other value encoded. The encoder writes nothing when
  it fails, and its error is dropped.
\<close>

definition htmx_write_header :: "env \<Rightarrow> string \<Rightarrow> any \<Rightarrow> ctx \<Rightarrow> ctx" where
  "htmx_write_header env key v c =
     (case v of
        AnyString s \<Rightarrow> write_header key s c
      | _ \<Rightarrow> write_header key (case e_json env v of Inl _ \<Rightarrow> [] | Inr s \<Rightarrow> s) c)"

definition write_trigger :: "env \<Rightarrow> string \<Rightarrow> any \<Rightarrow> ctx \<Rightarrow> ctx" where
  "write_trigger env key v c = htmx_write_header env key v c"

definition write_redirect :: "env \<Rightarrow> string \<Rightarrow> ctx \<Rightarrow> ctx option" where
  "write_redirect env url c = write_status 200 (htmx_write_header env hx_redirect (AnyString url) c)"

definition write_refresh :: "env \<Rightarrow> ctx \<Rightarrow> ctx" where
  "write_refresh env = htmx_write_header env hx_refresh (AnyString ''true'')"

text \<open>The location is a map, never a string.\<close>

definition write_location :: "env \<Rightarrow> nat \<Rightarrow> ctx \<Rightarrow> ctx" where
  "write_location env location = htmx_write_header env hx_location (AnyOther location)"

definition write_retarget :: "env \<Rightarrow> string \<Rightarrow> ctx \<Rightarrow> ctx" where
  "write_retarget env selector = htmx_write_header env hx_retarget (AnyString selector)"

definition write_push_url :: "env \<Rightarrow> ctx \<Rightarrow> ctx" where
  "write_push_url env = htmx_write_header env hx_push_url (AnyString ''true'')"

definition write_push_url_to :: "env \<Rightarrow> string \<Rightarrow> ctx \<Rightarrow> ctx" where
  "write_push_url_to env url = htmx_write_header env hx_push_url (AnyString url)"

definition write_replace_url :: "env \<Rightarrow> ctx \<Rightarrow> ctx" where
  "write_replace_url env = htmx_write_header env hx_replace_url (AnyString ''true'')"

definition write_replace_url_to :: "env \<Rightarrow> string \<Rightarrow> ctx \<Rightarrow> ctx" where
  "write_replace_url_to env url = htmx_write_header env hx_replace_url (AnyString url)"

definition write_reswap :: "env \<Rightarrow> string \<Rightarrow> ctx \<Rightarrow> ctx" where
  "write_reswap env strategy = htmx_write_header env hx_reswap (AnyString strategy)"

definition write_reselect :: "env \<Rightarrow> string \<Rightarrow> ctx \<Rightarrow> ctx" where
  "write_reselect env selector = htmx_write_header env hx_reselect (AnyString selector)"

text \<open>The library's handler; \<open>buf\<close> is the embedded file.\<close>

definition htmx_handle_func :: "env \<Rightarrow> string \<Rightarrow> handler" where
  "htmx_handle_func env buf =
     (let etag = compute_etag_with (Some buf) crc32_sum in serve_script env ''htmx.js'' etag buf)"

section \<open>Lemmas\<close>

text \<open>What a helper writes: the field and its value.\<close>

datatype hx_op =
    TriggerOp string any
  | RefreshOp
  | LocationOp nat
  | RetargetOp string
  | PushUrlOp
  | PushUrlToOp string
  | ReplaceUrlOp
  | ReplaceUrlToOp string
  | ReswapOp string
  | ReselectOp string

fun hx_apply :: "env \<Rightarrow> hx_op \<Rightarrow> ctx \<Rightarrow> ctx" where
  "hx_apply env (TriggerOp key v) = write_trigger env key v"
| "hx_apply env RefreshOp = write_refresh env"
| "hx_apply env (LocationOp l) = write_location env l"
| "hx_apply env (RetargetOp s) = write_retarget env s"
| "hx_apply env PushUrlOp = write_push_url env"
| "hx_apply env (PushUrlToOp u) = write_push_url_to env u"
| "hx_apply env ReplaceUrlOp = write_replace_url env"
| "hx_apply env (ReplaceUrlToOp u) = write_replace_url_to env u"
| "hx_apply env (ReswapOp s) = write_reswap env s"
| "hx_apply env (ReselectOp s) = write_reselect env s"

fun hx_field :: "hx_op \<Rightarrow> string \<times> any" where
  "hx_field (TriggerOp key v) = (key, v)"
| "hx_field RefreshOp = (''HX-Refresh'', AnyString ''true'')"
| "hx_field (LocationOp l) = (''HX-Location'', AnyOther l)"
| "hx_field (RetargetOp s) = (''HX-Retarget'', AnyString s)"
| "hx_field PushUrlOp = (''HX-Push-Url'', AnyString ''true'')"
| "hx_field (PushUrlToOp u) = (''HX-Push-Url'', AnyString u)"
| "hx_field ReplaceUrlOp = (''HX-Replace-Url'', AnyString ''true'')"
| "hx_field (ReplaceUrlToOp u) = (''HX-Replace-Url'', AnyString u)"
| "hx_field (ReswapOp s) = (''HX-Reswap'', AnyString s)"
| "hx_field (ReselectOp s) = (''HX-Reselect'', AnyString s)"

text \<open>The text of a value; a value that cannot be encoded has none.\<close>

definition hx_text :: "env \<Rightarrow> any \<Rightarrow> string" where
  "hx_text env v = (case v of AnyString s \<Rightarrow> s | _ \<Rightarrow> (case e_json env v of Inl _ \<Rightarrow> [] | Inr s \<Rightarrow> s))"

lemma htmx_write_header_text: "htmx_write_header env key v c = write_header key (hx_text env v) c"
  by (cases v) (simp_all add: htmx_write_header_def hx_text_def)

lemma hx_apply_field: "hx_apply env op1 c = write_header (fst (hx_field op1)) (hx_text env (snd (hx_field op1))) c"
  by (cases op1) (simp_all add: htmx_write_header_text hx_names write_trigger_def write_refresh_def write_location_def
    write_retarget_def write_push_url_def write_push_url_to_def write_replace_url_def write_replace_url_to_def
    write_reswap_def write_reselect_def)

lemma is_hx_request_interceptor: "is_hx_request c \<longleftrightarrow> ic_is_hx_request c"
  by (simp add: is_hx_request_def ic_is_hx_request_def)

text \<open>
  The encoder's error is dropped, and writing the empty text deletes the field: a value that
  cannot be encoded takes away what an earlier helper had set.
\<close>

lemma unencodable_value_deletes:
  assumes "e_json env (AnyOther v) = Inl e"
  shows "resp_header (write_trigger env key (AnyOther v) c) key = []"
  using assms by (simp add: write_trigger_def htmx_write_header_text hx_text_def resp_header_write same_key_def)

section \<open>Properties\<close>

text \<open>
  The last helper wins. After any sequence of response helpers, a field holds the text of
  the value of the last one that wrote it, under any spelling of its name, and a field none of
  them names is as it was.
\<close>

theorem helpers_last_write:
  "resp_header (fold (hx_apply env) ops c) k =
     (case find (\<lambda>op1. same_key (fst (hx_field op1)) k) (rev ops) of
        None \<Rightarrow> resp_header c k
      | Some op1 \<Rightarrow> hx_text env (snd (hx_field op1)))"
proof (induction ops rule: rev_induct)
  case (snoc op1 ops)
  then show ?case by (simp add: hx_apply_field resp_header_write)
qed simp

text \<open>
  C39: redirects reach htmx. With the interceptor installed, \<open>Context.Redirect\<close> answers a request
  of htmx with 200 and the address in \<open>HX-Redirect\<close>, leaving \<open>Location\<close> alone, and any other
  with \<open>Location\<close> and the status asked for, 302 by default; and the referer of a request of htmx
  is the address the browser shows, when it says so.
\<close>

theorem htmx_redirect_channel:
  assumes "e_interceptor env = Some htmx_interceptor" and "rw_code (c_rw c) = 0" and "w_status (rw_under (c_rw c)) = None"
    and "\<forall>code \<in> set codes. 300 \<le> code \<and> code \<le> 399" and "url \<noteq> []"
  shows "\<exists>c1. redirect env url codes c = Some c1 \<and>
    (if is_hx_request c
     then w_status (rw_under (c_rw c1)) = Some 200 \<and> w_sent_header (rw_under (c_rw c1)) ''Hx-Redirect'' = Some [url] \<and>
       resp_header c1 ''Location'' = resp_header c ''Location''
     else w_status (rw_under (c_rw c1)) = Some (case codes of [] \<Rightarrow> 302 | code # _ \<Rightarrow> code) \<and>
       w_sent_header (rw_under (c_rw c1)) ''Location'' = Some [url]) \<and>
    request_referer env c =
      (if is_hx_request c \<and> htmx_current_url c \<noteq> [] then htmx_current_url c else req_header c ''Referer'')"
proof -
  have key: "canonical_key ''HX-Redirect'' = ''Hx-Redirect''" "canonical_key ''Location'' = ''Location''" by code_simp+
  have code: "200 \<le> (case codes of [] \<Rightarrow> 302 | code # _ \<Rightarrow> code)" "(case codes of [] \<Rightarrow> 302 | code # _ \<Rightarrow> code) \<le> 999"
    using assms(4) by (auto split: list.split)
  have w: "rw_header (c_rw (write_header k url c)) = (rw_header (c_rw c))(canonical_key k := Some [url])"
    "w_header (rw_under (c_rw (write_header k url c))) = (rw_header (c_rw c))(canonical_key k := Some [url])" for k
    using assms(5) by (simp_all add: write_header_def set_resp_header_def rw_map_header_def rw_header_def hdr_set_def)
  have "request_referer env c =
      (if is_hx_request c \<and> htmx_current_url c \<noteq> [] then htmx_current_url c else req_header c ''Referer'')"
    using assms(1)
    by (simp add: request_referer_def htmx_interceptor_def htmx_referer_def is_hx_request_interceptor htmx_current_url_def
        req_header_def)
  moreover have "redirect env url codes c =
      (if is_hx_request c then write_status 200 (write_header ''HX-Redirect'' url c)
       else write_status (case codes of [] \<Rightarrow> 302 | code # _ \<Rightarrow> code) (write_header ''Location'' url c))"
    using assms(1-3)
    by (simp add: redirect_def htmx_interceptor_def htmx_redirect_def is_hx_request_interceptor write_status_fresh)
  ultimately show ?thesis
    using assms(2,3) code by (simp add: write_status_fresh w key resp_header_def rw_header_def hdr_get_def)
qed

section \<open>Witnesses\<close>

definition hx_get :: request where
  "hx_get = (plain_request ''GET'' ''/'')\<lparr>r_header := hdr_set Map.empty ''HX-Request'' ''true''\<rparr>"

lemma htmx_redirect_channel_witness:
  "\<exists>c1. redirect (demo_env\<lparr>e_interceptor := Some htmx_interceptor\<rparr>) ''/login'' [] (demo_ctx hx_get) = Some c1 \<and>
     w_status (rw_under (c_rw c1)) = Some 200 \<and> w_sent_header (rw_under (c_rw c1)) ''Hx-Redirect'' = Some [''/login'']"
proof -
  have "is_hx_request (demo_ctx hx_get)" by code_simp
  then show ?thesis
    using htmx_redirect_channel [of "demo_env\<lparr>e_interceptor := Some htmx_interceptor\<rparr>" "demo_ctx hx_get" "[]" "''/login''"]
    by (auto simp: demo_ctx_def new_response_writer_def new_http_rw_def)
qed

end
