(* ===== verification/Guards.thy ===== *)
theory Guards
  imports Acl Hsts Csrf Caching Htmx
begin

text \<open>
  How the middlewares of the extensions work together on one application: each either answers a
  request itself, or hands it on with an answer still open. What \<open>ext/acl\<close>, \<open>ext/hsts\<close>, \<open>ext/csrf\<close>
  and \<open>ext/cache\<close> promise is stated once, and holds of any chain of such middlewares.
\<close>

section \<open>Guards\<close>

definition fresh_ctx :: "ctx \<Rightarrow> bool" where
  "fresh_ctx c \<longleftrightarrow> rw_code (c_rw c) = 0 \<and> w_status (rw_under (c_rw c)) = None"

text \<open>
  The middleware answers the requests of \<open>refuses\<close> with one of the \<open>codes\<close> and cancels the chain;
  it hands on any other request, with the answer open.
\<close>

definition guards :: "int set \<Rightarrow> middleware \<Rightarrow> (request \<Rightarrow> bool) \<Rightarrow> bool" where
  "guards codes mw refuses \<longleftrightarrow>
     (\<forall>c. fresh_ctx c \<longrightarrow>
        (if refuses (c_req c)
         then \<exists>c1 s. s \<in> codes \<and> w_status (rw_under (c_rw c1)) = Some s \<and> (\<forall>next. mw next c = Some (Some ErrCancelled, c1))
         else \<exists>c1. fresh_ctx c1 \<and> c_req c1 = c_req c \<and> (\<forall>next. mw next c = next c1)))"

lemma guardsI:
  assumes "\<And>c. fresh_ctx c \<Longrightarrow> refuses (c_req c) \<Longrightarrow>
      \<exists>c1 s. s \<in> codes \<and> w_status (rw_under (c_rw c1)) = Some s \<and> (\<forall>next. mw next c = Some (Some ErrCancelled, c1))"
    and "\<And>c. fresh_ctx c \<Longrightarrow> \<not> refuses (c_req c) \<Longrightarrow>
      \<exists>c1. fresh_ctx c1 \<and> c_req c1 = c_req c \<and> (\<forall>next. mw next c = next c1)"
  shows "guards codes mw refuses"
  unfolding guards_def using assms by (simp split: if_split)

lemma guards_stop:
  assumes "guards codes mw refuses" "fresh_ctx c" "refuses (c_req c)"
  obtains c1 s where "s \<in> codes" "w_status (rw_under (c_rw c1)) = Some s" "\<And>next. mw next c = Some (Some ErrCancelled, c1)"
  using assms unfolding guards_def by metis

lemma guards_pass:
  assumes "guards codes mw refuses" "fresh_ctx c" "\<not> refuses (c_req c)"
  obtains c1 where "fresh_ctx c1" "c_req c1 = c_req c" "\<And>next. mw next c = next c1"
  using assms unfolding guards_def by metis

text \<open>A chain of guards refuses what one of them refuses.\<close>

lemma guards_chain:
  assumes "list_all2 (guards codes) ms rs" and "fresh_ctx c"
  shows "if \<exists>refuses \<in> set rs. refuses (c_req c)
    then \<exists>c1 s. s \<in> codes \<and> w_status (rw_under (c_rw c1)) = Some s \<and>
      (\<forall>h. foldr (\<lambda>m. m) ms h c = Some (Some ErrCancelled, c1))
    else \<exists>c1. fresh_ctx c1 \<and> c_req c1 = c_req c \<and> (\<forall>h. foldr (\<lambda>m. m) ms h c = h c1)"
  using assms
proof (induction ms rs arbitrary: c rule: list_all2_induct)
  case (Cons m ms rf rs)
  show ?case
  proof (cases "rf (c_req c)")
    case True
    obtain c1 s where "s \<in> codes" "w_status (rw_under (c_rw c1)) = Some s" "\<And>next. m next c = Some (Some ErrCancelled, c1)"
      by (rule guards_stop [OF Cons.hyps(1) Cons.prems True]) blast
    moreover have "\<exists>refuses \<in> set (rf # rs). refuses (c_req c)" using True by simp
    ultimately show ?thesis by (simp only: if_True foldr.simps o_apply) blast
  next
    case False
    obtain c1 where c1: "fresh_ctx c1" "c_req c1 = c_req c" "\<And>next. m next c = next c1"
      by (rule guards_pass [OF Cons.hyps(1) Cons.prems False]) blast
    have "(\<exists>refuses \<in> set (rf # rs). refuses (c_req c)) \<longleftrightarrow> (\<exists>refuses \<in> set rs. refuses (c_req c1))"
      using False c1(2) by simp
    then show ?thesis using Cons.IH [OF c1(1)] by (simp only: foldr.simps o_apply c1(2,3))
  qed
qed auto

section \<open>The extensions are guards\<close>

lemma fresh_write_header [simp]: "fresh_ctx (write_header k v c) \<longleftrightarrow> fresh_ctx c"
  by (simp add: fresh_ctx_def)

lemma write_status_sent:
  "fresh_ctx c \<Longrightarrow> 200 \<le> code \<Longrightarrow> code \<le> 999 \<Longrightarrow>
     \<exists>c1. write_status code c = Some c1 \<and> w_status (rw_under (c_rw c1)) = Some code"
  by (simp add: fresh_ctx_def write_status_fresh)

text \<open>A redirect answers with its status, or with 200 when the htmx interceptor takes it.\<close>

lemma redirect_sent:
  assumes "e_interceptor env \<in> {None, Some htmx_interceptor}" "fresh_ctx c" "200 \<le> code" "code \<le> 999"
  shows "\<exists>c1. redirect env url [code] c = Some c1 \<and> w_status (rw_under (c_rw c1)) \<in> {Some 200, Some code}"
proof -
  have "\<exists>c1. write_status s (write_header k url c) = Some c1 \<and> w_status (rw_under (c_rw c1)) = Some s"
    if "200 \<le> s" "s \<le> 999" for s k
    using write_status_sent [of "write_header k url c" s] assms(2) that by simp
  from this [of 200 "''HX-Redirect''"] this [of code "''Location''"] show ?thesis
    using assms by (auto simp: redirect_def htmx_interceptor_def htmx_redirect_def Let_def)
qed

lemma acl_guards:
  assumes "e_interceptor env \<in> {None, Some htmx_interceptor}" and "ao_viewer o1 = []"
    and "200 \<le> ao_code o1" "ao_code o1 \<le> 999" and "{200, 403, ao_code o1} \<subseteq> codes"
  shows "guards codes (acl_middleware env as_any o1) (acl_refused o1)"
proof (rule guardsI)
  fix c assume c: "fresh_ctx c" and r: "acl_refused o1 (c_req c)"
  have "acl_decide o1 (c_req c) \<noteq> Go" using r acl_decide_Go_iff by blast
  then consider m where "acl_decide o1 (c_req c) = Refuse m" | "acl_decide o1 (c_req c) = Bounce"
    by (cases "acl_decide o1 (c_req c)") auto
  then show "\<exists>c1 s. s \<in> codes \<and> w_status (rw_under (c_rw c1)) = Some s \<and>
      (\<forall>next. acl_middleware env as_any o1 next c = Some (Some ErrCancelled, c1))"
  proof cases
    case 1
    then show ?thesis using write_status_sent [OF c, of 403] assms(2,5) by (auto simp: acl_middleware_def acl_reject_def)
  next
    case 2
    then show ?thesis
      using redirect_sent [OF assms(1) c assms(3,4), of "ao_url o1"] assms(5) by (auto simp: acl_middleware_def acl_redirect_def)
  qed
next
  fix c assume c: "fresh_ctx c" and r: "\<not> acl_refused o1 (c_req c)"
  then have "acl_decide o1 (c_req c) = Go" using acl_decide_Go_iff by blast
  then show "\<exists>c1. fresh_ctx c1 \<and> c_req c1 = c_req c \<and> (\<forall>next. acl_middleware env as_any o1 next c = next c1)"
    using c by (intro exI [of _ c]) (simp add: acl_middleware_def)
qed

definition upgrades :: "ignore_rule list \<Rightarrow> request \<Rightarrow> bool" where
  "upgrades rules r \<longleftrightarrow> \<not> r_tls r \<and> r_method r \<in> {''GET'', ''HEAD''} \<and> \<not> hsts_ignored rules r"

lemma hsts_redirect_cases:
  "hsts_redirect env code rules next c =
     (if upgrades rules (c_req c)
      then do {
        c1 \<leftarrow> redirect env (''https://'' @ strip_port (r_host (c_req c)) @ r_uri (c_req c)) [code] c;
        Some (Some ErrCancelled, c1)
      }
      else next c)"
  by (cases "hsts_ignored rules (c_req c)") (simp_all add: hsts_redirect_def upgrades_def Let_def)

lemma hsts_redirect_guards:
  assumes "e_interceptor env \<in> {None, Some htmx_interceptor}" and "200 \<le> code" "code \<le> 999" and "{200, code} \<subseteq> codes"
  shows "guards codes (hsts_redirect env code rules) (upgrades rules)"
proof (rule guardsI)
  fix c assume c: "fresh_ctx c" and r: "upgrades rules (c_req c)"
  obtain c1 where "redirect env (''https://'' @ strip_port (r_host (c_req c)) @ r_uri (c_req c)) [code] c = Some c1"
    and "w_status (rw_under (c_rw c1)) \<in> {Some 200, Some code}"
    using redirect_sent [OF assms(1) c assms(2,3)] by blast
  then show "\<exists>c1 s. s \<in> codes \<and> w_status (rw_under (c_rw c1)) = Some s \<and>
      (\<forall>next. hsts_redirect env code rules next c = Some (Some ErrCancelled, c1))"
    unfolding hsts_redirect_cases using r assms(4) by auto
next
  fix c assume c: "fresh_ctx c" and "\<not> upgrades rules (c_req c)"
  then have "hsts_redirect env code rules next c = next c" for "next" unfolding hsts_redirect_cases by simp
  with c show "\<exists>c1. fresh_ctx c1 \<and> c_req c1 = c_req c \<and> (\<forall>next. hsts_redirect env code rules next c = next c1)" by blast
qed

text \<open>Middlewares that only set a field refuse nothing.\<close>

lemma field_guards:
  assumes "\<And>c. (\<forall>next. mw next c = next c) \<or> (\<exists>k v. \<forall>next. mw next c = next (write_header k v c))"
  shows "guards codes mw (\<lambda>_. False)"
proof (rule guardsI)
  fix c assume c: "fresh_ctx c"
  from assms [of c] show "\<exists>c1. fresh_ctx c1 \<and> c_req c1 = c_req c \<and> (\<forall>next. mw next c = next c1)"
    using c by (metis fresh_write_header write_header_frame(1))
qed simp

lemma hsts_header_guards: "guards codes (hsts_write_header opts) (\<lambda>_. False)"
  by (rule field_guards) (auto simp: hsts_write_header_def Let_def)

lemma cache_guards: "guards codes (cache_new opts) (\<lambda>_. False)"
  by (rule field_guards) (auto simp: cache_new_def cache_middleware_def apply_rules_find split: option.split)

definition forged :: "mac \<Rightarrow> csrf_opts \<Rightarrow> request \<Rightarrow> bool" where
  "forged mac o1 r \<longleftrightarrow>
     r_method r \<notin> {''GET'', ''HEAD'', ''OPTIONS''} \<and> \<not> verify_token mac (req_cookie r (cs_cookie o1)) r o1"

lemma set_token_cookie_fresh [simp]:
  "fresh_ctx (set_token_cookie mac rnd o1 c) \<longleftrightarrow> fresh_ctx c" "c_req (set_token_cookie mac rnd o1 c) = c_req c"
  by (simp_all add: set_token_cookie_def http_set_cookie_def fresh_ctx_def rw_map_header_def split: option.split)

lemma csrf_guards:
  assumes "418 \<in> codes"
  shows "guards codes (csrf_middleware mac rnd o1) (forged mac o1)"
proof (rule guardsI)
  fix c assume c: "fresh_ctx c" and r: "forged mac o1 (c_req c)"
  then show "\<exists>c1 s. s \<in> codes \<and> w_status (rw_under (c_rw c1)) = Some s \<and>
      (\<forall>next. csrf_middleware mac rnd o1 next c = Some (Some ErrCancelled, c1))"
    using write_status_sent [OF c, of 418] assms by (auto simp: csrf_middleware_def forged_def Let_def)
next
  fix c assume c: "fresh_ctx c" and r: "\<not> forged mac o1 (c_req c)"
  let ?c1 = "if r_method (c_req c) \<in> {''GET'', ''HEAD'', ''OPTIONS''} \<and> req_cookie (c_req c) (cs_cookie o1) = None
    then set_token_cookie mac rnd o1 c else c"
  have "csrf_middleware mac rnd o1 next c = next ?c1" for "next"
    using r by (auto simp: csrf_middleware_def forged_def Let_def)
  then show "\<exists>c1. fresh_ctx c1 \<and> c_req c1 = c_req c \<and> (\<forall>next. csrf_middleware mac rnd o1 next c = next c1)"
    using c by (intro exI [of _ ?c1]) simp
qed

end
