(* ===== verification/Reqlog.thy ===== *)
theory Reqlog
  imports IpNet Routing
begin

text \<open>
  The request log, \<open>ext/reqlog\<close>: the options (\<open>option.go\<close>), the three formats (\<open>format.go\<close>) and the
  middleware (\<open>log.go\<close>).

  A logger is a number, and what it is given is the text of one \<open>Printf\<close>. The local time of a
  request has its offset from UTC in seconds.
\<close>

section \<open>Times\<close>

record log_time = utc +
  lt_offset :: int

definition month_name :: "nat \<Rightarrow> string" where
  "month_name m = [''Jan'', ''Feb'', ''Mar'', ''Apr'', ''May'', ''Jun'', ''Jul'', ''Aug'', ''Sep'', ''Oct'', ''Nov'', ''Dec''] ! (m - 1)"

text \<open>\<open>Format("[02/Jan/2006:15:04:05 -0700]")\<close>\<close>

definition format_log_time :: "log_time \<Rightarrow> string" where
  "format_log_time t =
     (let zone = nat \<bar>lt_offset t\<bar> div 60
      in ''['' @ pad2 (ut_day t) @ ''/'' @ month_name (ut_month t) @ ''/'' @ pad4 (ut_year t) @ '':'' @
         pad2 (ut_hour t) @ '':'' @ pad2 (ut_min t) @ '':'' @ pad2 (ut_sec t) @ '' '' @
         (if lt_offset t < 0 \<and> zone > 0 then ''-'' else ''+'') @ pad2 (zone div 60) @ pad2 (zone mod 60) @ '']'')"

section \<open>Options\<close>

datatype log_format =
    CombinedFormat
  | VCombinedFormat
  | CommonFormat
  | CustomFormat "ctx \<Rightarrow> (ctx \<Rightarrow> string) \<Rightarrow> (ctx \<Rightarrow> string) \<Rightarrow> nat \<Rightarrow> log_time \<Rightarrow> (nat \<times> string) list"

record log_opts =
  lo_logger :: nat
  lo_visitor :: "ctx \<Rightarrow> string"
  lo_user :: "ctx \<Rightarrow> string"
  lo_format :: log_format
  lo_skip :: "(ctx \<Rightarrow> bool) option"

type_synonym log_option = "log_opts \<Rightarrow> log_opts"

definition miss :: "ctx \<Rightarrow> string" where "miss c = ''-''"

text \<open>An argument that may be nil is an option.\<close>

definition with_logger :: "nat option \<Rightarrow> log_option" where
  "with_logger l o1 = (case l of None \<Rightarrow> o1 | Some n \<Rightarrow> o1\<lparr>lo_logger := n\<rparr>)"

definition or_dash :: "(ctx \<Rightarrow> string) \<Rightarrow> ctx \<Rightarrow> string" where
  "or_dash get c = (let v = get c in if v = [] then ''-'' else v)"

definition with_visitor :: "(ctx \<Rightarrow> string) option \<Rightarrow> log_option" where
  "with_visitor get o1 = (case get of None \<Rightarrow> o1 | Some g \<Rightarrow> o1\<lparr>lo_visitor := or_dash g\<rparr>)"

definition with_user :: "(ctx \<Rightarrow> string) option \<Rightarrow> log_option" where
  "with_user get o1 = (case get of None \<Rightarrow> o1 | Some g \<Rightarrow> o1\<lparr>lo_user := or_dash g\<rparr>)"

definition with_format :: "log_format option \<Rightarrow> log_option" where
  "with_format f o1 = (case f of None \<Rightarrow> o1 | Some g \<Rightarrow> o1\<lparr>lo_format := g\<rparr>)"

definition with_skip :: "(ctx \<Rightarrow> bool) option \<Rightarrow> log_option" where
  "with_skip f o1 = o1\<lparr>lo_skip := f\<rparr>"

definition log_options :: "log_option list \<Rightarrow> log_opts" where
  "log_options opts =
     fold (\<lambda>opt x. opt x) opts
       \<lparr>lo_logger = 0, lo_visitor = miss, lo_user = miss, lo_format = CombinedFormat, lo_skip = None\<rparr>"

section \<open>Formats\<close>

definition is_https :: "request \<Rightarrow> bool" where
  "is_https r \<longleftrightarrow> r_tls r \<or> hdr_get (r_header r) ''X-Forwarded-Proto'' = ''https''"

definition log_escape :: "string \<Rightarrow> string" where
  "log_escape s = (if s = ''-'' then s else [DQUOTE] @ replace_byte s DQUOTE [CHR 0x5C, DQUOTE] @ [DQUOTE])"

definition request_line :: "request \<Rightarrow> string" where
  "request_line r = [DQUOTE] @ r_method r @ '' '' @ r_path r @ '' '' @ r_proto r @ [DQUOTE]"

definition remote_addr :: "request \<Rightarrow> string" where
  "remote_addr r = (case split_host_port (r_remote r) of None \<Rightarrow> [] | Some host \<Rightarrow> host)"

definition user_agent :: "request \<Rightarrow> string" where "user_agent r = hdr_get (r_header r) ''User-Agent''"
definition referer :: "request \<Rightarrow> string" where "referer r = hdr_get (r_header r) ''Referer''"

definition common_line :: "ctx \<Rightarrow> log_opts \<Rightarrow> log_time \<Rightarrow> string" where
  "common_line c o1 starts =
     remote_addr (c_req c) @ '' '' @ log_escape (lo_visitor o1 c) @ '' '' @ log_escape (lo_user o1 c) @ '' '' @
     format_log_time starts @ '' '' @ request_line (c_req c) @ '' '' @
     itoa (std_status_code (c_rw c)) @ '' '' @ itoa (int (std_body_bytes_sent (c_rw c))) @ [LF]"

definition combined_line :: "ctx \<Rightarrow> log_opts \<Rightarrow> log_time \<Rightarrow> string" where
  "combined_line c o1 starts =
     remote_addr (c_req c) @ '' '' @ log_escape (lo_visitor o1 c) @ '' '' @ log_escape (lo_user o1 c) @ '' '' @
     format_log_time starts @ '' '' @ request_line (c_req c) @ '' '' @
     itoa (std_status_code (c_rw c)) @ '' '' @ itoa (int (std_body_bytes_sent (c_rw c))) @ '' '' @
     [DQUOTE] @ referer (c_req c) @ [DQUOTE] @ '' '' @ [DQUOTE] @ user_agent (c_req c) @ [DQUOTE] @ [LF]"

definition vhost :: "request \<Rightarrow> string" where
  "vhost r =
     (let host = (if r_host r = [] then r_url_host r else r_host r)
      in if \<not> str_contains host '':'' then (if is_https r then host @ '':443'' else host @ '':80'') else host)"

definition vcombined_line :: "ctx \<Rightarrow> log_opts \<Rightarrow> log_time \<Rightarrow> string" where
  "vcombined_line c o1 starts =
     vhost (c_req c) @ '' '' @
     remote_addr (c_req c) @ '' '' @ log_escape (lo_visitor o1 c) @ '' '' @ log_escape (lo_user o1 c) @ '' '' @
     format_log_time starts @ '' '' @ request_line (c_req c) @ '' '' @
     itoa (std_status_code (c_rw c)) @ '' '' @ itoa (int (std_body_bytes_sent (c_rw c))) @ '' '' @
     log_escape (referer (c_req c)) @ '' '' @ log_escape (user_agent (c_req c)) @ [LF]"

definition run_format :: "ctx \<Rightarrow> log_opts \<Rightarrow> log_time \<Rightarrow> (nat \<times> string) list" where
  "run_format c o1 starts =
     (case lo_format o1 of
        CombinedFormat \<Rightarrow> [(lo_logger o1, combined_line c o1 starts)]
      | VCombinedFormat \<Rightarrow> [(lo_logger o1, vcombined_line c o1 starts)]
      | CommonFormat \<Rightarrow> [(lo_logger o1, common_line c o1 starts)]
      | CustomFormat f \<Rightarrow> f c (lo_visitor o1) (lo_user o1) (lo_logger o1) starts)"

section \<open>Middleware\<close>

text \<open>
  The result of the handler and what is logged. The deferred call runs also when the handler
  panics, on the context as the panic left it, which is \<open>at_panic\<close>.
\<close>

definition reqlog_middleware ::
  "log_opts \<Rightarrow> log_time \<Rightarrow> (ctx \<Rightarrow> ctx) \<Rightarrow> handler \<Rightarrow> ctx \<Rightarrow> (gerr option \<times> ctx) option \<times> (nat \<times> string) list" where
  "reqlog_middleware o1 now at_panic next c =
     (if (case lo_skip o1 of None \<Rightarrow> False | Some f \<Rightarrow> f c) then (next c, [])
      else (case next c of
              None \<Rightarrow> (None, run_format (at_panic c) o1 now)
            | Some (err, c1) \<Rightarrow> (Some (err, c1), run_format c1 o1 now)))"

section \<open>Reading a line back\<close>

text \<open>
  A reader of access logs: fields between spaces, the time between brackets, quoted fields in
  which a backslash takes the next character literally. A missing value is a dash.
\<close>

datatype field_kind = PlainField | TimeField | QuotedField

fun read_quoted :: "string \<Rightarrow> (string \<times> string) option" where
  "read_quoted [] = None"
| "read_quoted (c # s) =
     (if c = DQUOTE then Some ([], s)
      else if c = CHR 0x5C then (case s of [] \<Rightarrow> None | d # s' \<Rightarrow> map_option (\<lambda>(v, r). (d # v, r)) (read_quoted s'))
      else map_option (\<lambda>(v, r). (c # v, r)) (read_quoted s))"

definition field_sep :: "char \<Rightarrow> bool" where "field_sep c \<longleftrightarrow> c = SP \<or> c = LF"

definition read_plain :: "string \<Rightarrow> (string \<times> string) option" where
  "read_plain s = Some (takeWhile (\<lambda>c. \<not> field_sep c) s, dropWhile (\<lambda>c. \<not> field_sep c) s)"

fun read_field :: "field_kind \<Rightarrow> string \<Rightarrow> (string \<times> string) option" where
  "read_field PlainField s = read_plain s"
| "read_field TimeField s =
     (case s of
        [] \<Rightarrow> None
      | c # r \<Rightarrow>
          (if c = CHR ''['' \<and> CHR '']'' \<in> set r
           then Some (takeWhile (\<lambda>d. d \<noteq> CHR '']'') r, tl (dropWhile (\<lambda>d. d \<noteq> CHR '']'') r)) else None))"
| "read_field QuotedField s =
     (case s of
        [] \<Rightarrow> None
      | c # r \<Rightarrow> if c = DQUOTE then read_quoted r else read_plain s)"

fun read_fields :: "field_kind list \<Rightarrow> string \<Rightarrow> string list option" where
  "read_fields [] s = None"
| "read_fields (k # ks) s =
     (case read_field k s of
        None \<Rightarrow> None
      | Some (v, r) \<Rightarrow>
          if ks = [] then (if r = [LF] then Some [v] else None)
          else (case r of
                  [] \<Rightarrow> None
                | c # r' \<Rightarrow> if c = SP then map_option (\<lambda>vs. v # vs) (read_fields ks r') else None))"

definition no_chars :: "char list \<Rightarrow> string \<Rightarrow> bool" where
  "no_chars cs s \<longleftrightarrow> (\<forall>c \<in> set s. c \<notin> set cs)"

text \<open>The text of a field is read back as its value, whatever follows the separator.\<close>

definition field_reads :: "field_kind \<Rightarrow> string \<Rightarrow> string \<Rightarrow> bool" where
  "field_reads k raw v \<longleftrightarrow> (\<forall>c s. field_sep c \<longrightarrow> read_field k (raw @ c # s) = Some (v, c # s))"

lemma read_fields_join:
  assumes "list_all (\<lambda>(k, raw, v). field_reads k raw v) fs" "fs \<noteq> []"
  shows "read_fields (map fst fs) (go_join (map (\<lambda>f. fst (snd f)) fs) '' '' @ [LF]) = Some (map (\<lambda>f. snd (snd f)) fs)"
  using assms
proof (induction fs)
  case (Cons f fs)
  obtain k raw v where f: "f = (k, raw, v)" by (cases f) auto
  have r: "read_field k (raw @ c # s) = Some (v, c # s)" if "c = SP \<or> c = LF" for c s
    using Cons.prems(1) that by (auto simp: f field_reads_def field_sep_def)
  show ?case
  proof (cases "fs = []")
    case True
    then show ?thesis using r [of LF "[]"] by (simp add: f)
  next
    case False
    then obtain g gs where g: "fs = g # gs" by (cases fs) auto
    let ?rest = "go_join (map (\<lambda>f. fst (snd f)) fs) '' '' @ [LF]"
    have "read_fields (map fst fs) ?rest = Some (map (\<lambda>f. snd (snd f)) fs)"
      using Cons.IH [OF _ False] Cons.prems(1) by simp
    moreover have "go_join (map (\<lambda>f. fst (snd f)) (f # fs)) '' '' @ [LF] = raw @ SP # ?rest" by (simp add: f g)
    ultimately show ?thesis using r [of SP ?rest] False by (simp add: f del: read_fields.simps) (simp add: f)
  qed
qed simp

lemma reads_plain: "no_chars [SP, LF] s \<Longrightarrow> field_reads PlainField s s"
  by (auto simp: field_reads_def read_plain_def no_chars_def field_sep_def takeWhile_append2 dropWhile_append2)

lemma reads_time:
  "no_chars [CHR '']''] s \<Longrightarrow> field_reads TimeField (''['' @ s @ '']'') s"
  by (auto simp: field_reads_def no_chars_def takeWhile_append2 dropWhile_append2)

lemma read_quoted_raw: "no_chars [DQUOTE, CHR 0x5C] s \<Longrightarrow> read_quoted (s @ DQUOTE # r) = Some (s, r)"
  by (induction s) (auto simp: no_chars_def)

lemma read_quoted_escaped:
  "no_chars [CHR 0x5C] s \<Longrightarrow> read_quoted (replace_byte s DQUOTE [CHR 0x5C, DQUOTE] @ DQUOTE # r) = Some (s, r)"
  by (induction s) (auto simp: no_chars_def replace_byte_def)

lemma reads_quoted: "no_chars [DQUOTE, CHR 0x5C] s \<Longrightarrow> field_reads QuotedField ([DQUOTE] @ s @ [DQUOTE]) s"
  by (simp add: field_reads_def read_quoted_raw)

lemma reads_escaped: "no_chars [CHR 0x5C] s \<Longrightarrow> field_reads QuotedField (log_escape s) s"
  using read_quoted_escaped by (auto simp: field_reads_def log_escape_def read_plain_def field_sep_def)

text \<open>The texts that go into a line without an escape.\<close>

definition time_text :: "log_time \<Rightarrow> string" where
  "time_text t = butlast (tl (format_log_time t))"

definition valid_log_time :: "log_time \<Rightarrow> bool" where
  "valid_log_time t \<longleftrightarrow>
     ut_year t < 10000 \<and> 1 \<le> ut_month t \<and> ut_month t \<le> 12 \<and> ut_day t \<le> 31 \<and> ut_hour t < 24 \<and> ut_min t < 60 \<and>
     ut_sec t < 60 \<and> \<bar>lt_offset t\<bar> \<le> 86400"

definition request_text :: "request \<Rightarrow> string" where
  "request_text r = r_method r @ '' '' @ r_path r @ '' '' @ r_proto r"

definition plain_log_request :: "request \<Rightarrow> bool" where
  "plain_log_request r \<longleftrightarrow>
     no_chars [SP, LF] (vhost r) \<and> no_chars [SP, LF] (remote_addr r) \<and>
     no_chars [DQUOTE, CHR 0x5C] (r_method r) \<and> no_chars [DQUOTE, CHR 0x5C] (r_path r) \<and>
     no_chars [DQUOTE, CHR 0x5C] (r_proto r)"

lemma no_chars_append [simp]: "no_chars cs (a @ b) \<longleftrightarrow> no_chars cs a \<and> no_chars cs b"
  by (auto simp: no_chars_def)

lemma no_chars_Nil [simp]: "no_chars cs []"
  by (simp add: no_chars_def)

lemma no_chars_Cons [simp]: "no_chars cs (c # s) \<longleftrightarrow> c \<notin> set cs \<and> no_chars cs s"
  by (auto simp: no_chars_def)

lemma digit_no_bracket: "n < 10 \<Longrightarrow> digit n \<noteq> CHR '']''"
  using is_digit_digit [of n] by (auto simp: is_digit_def byte_of_def)

lemma pad2_no_bracket: "n < 100 \<Longrightarrow> no_chars [CHR '']''] (pad2 n)"
  using digit_no_bracket [of "n div 10"] digit_no_bracket [of "n mod 10"] by (simp add: pad2_def less_mult_imp_div_less)

lemma month_no_bracket: "1 \<le> m \<Longrightarrow> m \<le> 12 \<Longrightarrow> no_chars [CHR '']''] (month_name m)"
proof -
  assume "1 \<le> m" "m \<le> 12"
  then have "m \<in> set [1..<13]" by simp
  moreover have "\<forall>m \<in> set [1..<13]. no_chars [CHR '']''] (month_name m)" by code_simp
  ultimately show ?thesis by blast
qed

lemma time_text_brackets:
  assumes "valid_log_time t"
  shows "format_log_time t = ''['' @ time_text t @ '']''" "no_chars [CHR '']''] (time_text t)"
proof -
  define zone where "zone = nat \<bar>lt_offset t\<bar> div 60"
  define body where "body = pad2 (ut_day t) @ ''/'' @ month_name (ut_month t) @ ''/'' @ pad4 (ut_year t) @ '':'' @
     pad2 (ut_hour t) @ '':'' @ pad2 (ut_min t) @ '':'' @ pad2 (ut_sec t) @ '' '' @
     (if lt_offset t < 0 \<and> zone > 0 then ''-'' else ''+'') @ pad2 (zone div 60) @ pad2 (zone mod 60)"
  have f: "format_log_time t = ''['' @ body @ '']''" by (simp add: format_log_time_def body_def zone_def Let_def)
  then have b: "time_text t = body" by (simp add: time_text_def butlast_append)
  with f show "format_log_time t = ''['' @ time_text t @ '']''" by simp
  have "zone \<le> 1440" using assms by (simp add: zone_def valid_log_time_def) linarith
  then have "zone div 60 < 100" "zone mod 60 < 100" by (simp_all add: less_mult_imp_div_less)
  then show "no_chars [CHR '']''] (time_text t)"
    unfolding b body_def using assms
    by (simp add: valid_log_time_def pad4_def pad2_no_bracket month_no_bracket less_mult_imp_div_less)
qed

lemma itoa_plain: "no_chars [SP, LF] (itoa i)"
proof -
  have "c \<noteq> SP \<and> c \<noteq> LF" if "c \<in> set (itoa i)" for c
    using set_itoa [OF that] by (auto simp: is_digit_def byte_of_def)
  then show ?thesis by (auto simp: no_chars_def)
qed

lemma reads_request_line:
  "plain_log_request r \<Longrightarrow> field_reads QuotedField (request_line r) (request_text r)"
  using reads_quoted [of "request_text r"] by (simp add: plain_log_request_def request_line_def request_text_def)

text \<open>The fields every format has, with their texts and values.\<close>

definition log_head :: "ctx \<Rightarrow> log_opts \<Rightarrow> log_time \<Rightarrow> (field_kind \<times> string \<times> string) list" where
  "log_head c o1 t =
     [(PlainField, remote_addr (c_req c), remote_addr (c_req c)),
      (QuotedField, log_escape (lo_visitor o1 c), lo_visitor o1 c), (QuotedField, log_escape (lo_user o1 c), lo_user o1 c),
      (TimeField, format_log_time t, time_text t), (QuotedField, request_line (c_req c), request_text (c_req c)),
      (PlainField, itoa (std_status_code (c_rw c)), itoa (std_status_code (c_rw c))),
      (PlainField, itoa (int (std_body_bytes_sent (c_rw c))), itoa (int (std_body_bytes_sent (c_rw c))))]"

lemma log_head_reads:
  assumes "plain_log_request (c_req c)" "valid_log_time t"
    and "no_chars [CHR 0x5C] (lo_visitor o1 c)" "no_chars [CHR 0x5C] (lo_user o1 c)"
  shows "list_all (\<lambda>(k, raw, v). field_reads k raw v) (log_head c o1 t)"
  using assms time_text_brackets [OF assms(2)] reads_time [of "time_text t"] reads_request_line [OF assms(1)]
  by (simp add: log_head_def plain_log_request_def reads_plain reads_escaped itoa_plain)

section \<open>What the formats let through\<close>

text \<open>The path is decoded, so it can hold a line feed: what follows it starts a line of its own.\<close>

lemma forged_log_line:
  assumes "r_path (c_req c) = p @ LF # evil"
  shows "\<exists>a b. common_line c o1 t = a @ LF # evil @ b" "\<exists>a b. combined_line c o1 t = a @ LF # evil @ b"
    "\<exists>a b. vcombined_line c o1 t = a @ LF # evil @ b"
proof -
  have "request_line (c_req c) = ([DQUOTE] @ r_method (c_req c) @ '' '' @ p) @ LF # evil @ ('' '' @ r_proto (c_req c) @ [DQUOTE])"
    using assms by (simp add: request_line_def)
  then have "\<exists>a b. x @ request_line (c_req c) @ y = a @ LF # evil @ b" for x y by (metis append.assoc append_Cons)
  then have *: "\<exists>a b. x1 @ x2 @ x3 @ x4 @ x5 @ x6 @ x7 @ x8 @ request_line (c_req c) @ y = a @ LF # evil @ b"
    "\<exists>a b. x1 @ x2 @ x3 @ x4 @ x5 @ x6 @ x7 @ x8 @ x9 @ x10 @ request_line (c_req c) @ y = a @ LF # evil @ b"
    for x1 x2 x3 x4 x5 x6 x7 x8 x9 x10 y
    by (metis append.assoc)+
  show "\<exists>a b. common_line c o1 t = a @ LF # evil @ b" unfolding common_line_def by (rule *)
  show "\<exists>a b. combined_line c o1 t = a @ LF # evil @ b" unfolding combined_line_def by (rule *)
  show "\<exists>a b. vcombined_line c o1 t = a @ LF # evil @ b" unfolding vcombined_line_def by (rule *)
qed

text \<open>A backslash is not escaped: at the end of a value it takes the closing quote.\<close>

lemma backslash_takes_quote: "\<not> field_reads QuotedField (log_escape [CHR 0x5C]) [CHR 0x5C]"
proof
  assume "field_reads QuotedField (log_escape [CHR 0x5C]) [CHR 0x5C]"
  then have "read_field QuotedField (log_escape [CHR 0x5C] @ SP # []) = Some ([CHR 0x5C], SP # [])"
    unfolding field_reads_def field_sep_def by blast
  then show False by (simp add: log_escape_def replace_byte_def)
qed

section \<open>Properties\<close>

text \<open>
  C23: the log is read back. From a line of a request whose method, path and protocol hold neither
  a quote nor a backslash, a reader of access logs gets the fields that were logged, also
  values with quotes, provided they have no backslash; in the combined format the referer and
  the user agent must not hold a quote either.
\<close>

theorem log_lines_read_back:
  assumes "plain_log_request (c_req c)" and "valid_log_time t"
    and "no_chars [CHR 0x5C] (lo_visitor o1 c)" and "no_chars [CHR 0x5C] (lo_user o1 c)"
    and "head = [remote_addr (c_req c), lo_visitor o1 c, lo_user o1 c, time_text t, request_text (c_req c),
           itoa (std_status_code (c_rw c)), itoa (int (std_body_bytes_sent (c_rw c)))]"
    and "kinds = [PlainField, QuotedField, QuotedField, TimeField, QuotedField, PlainField, PlainField]"
  shows "read_fields kinds (common_line c o1 t) = Some head \<and>
    (no_chars [CHR 0x5C] (referer (c_req c)) \<and> no_chars [CHR 0x5C] (user_agent (c_req c)) \<longrightarrow>
      read_fields (PlainField # kinds @ [QuotedField, QuotedField]) (vcombined_line c o1 t) =
        Some (vhost (c_req c) # head @ [referer (c_req c), user_agent (c_req c)])) \<and>
    (no_chars [DQUOTE, CHR 0x5C] (referer (c_req c)) \<and> no_chars [DQUOTE, CHR 0x5C] (user_agent (c_req c)) \<longrightarrow>
      read_fields (kinds @ [QuotedField, QuotedField]) (combined_line c o1 t) =
        Some (head @ [referer (c_req c), user_agent (c_req c)]))"
proof -
  let ?h = "log_head c o1 t"
  let ?v = "\<lambda>e. [(QuotedField, e (referer (c_req c)), referer (c_req c)), (QuotedField, e (user_agent (c_req c)), user_agent (c_req c))]"
  let ?raw = "\<lambda>s. [DQUOTE] @ s @ [DQUOTE]" and ?vh = "(PlainField, vhost (c_req c), vhost (c_req c))"
  note h = log_head_reads [OF assms(1-4)]
  have lines: "common_line c o1 t = go_join (map (\<lambda>f. fst (snd f)) ?h) '' '' @ [LF]"
    "vcombined_line c o1 t = go_join (map (\<lambda>f. fst (snd f)) (?vh # ?h @ ?v log_escape)) '' '' @ [LF]"
    "combined_line c o1 t = go_join (map (\<lambda>f. fst (snd f)) (?h @ ?v ?raw)) '' '' @ [LF]"
    by (simp_all add: common_line_def vcombined_line_def combined_line_def log_head_def)
  have fields: "kinds = map fst ?h" "head = map (\<lambda>f. snd (snd f)) ?h" "?h \<noteq> []"
    by (simp_all add: assms(5,6) log_head_def)
  have "field_reads PlainField (vhost (c_req c)) (vhost (c_req c))"
    using assms(1) by (simp add: plain_log_request_def reads_plain)
  then show ?thesis
    unfolding lines fields
    using read_fields_join [OF h] read_fields_join [of "?vh # ?h @ ?v log_escape"] read_fields_join [of "?h @ ?v ?raw"]
      h reads_escaped reads_quoted fields(3) by simp
qed


section \<open>Witnesses\<close>

definition demo_log_time :: log_time where
  "demo_log_time = \<lparr>ut_year = 2024, ut_month = 2, ut_day = 29, ut_hour = 13, ut_min = 5, ut_sec = 59, lt_offset = -12600\<rparr>"

lemma log_lines_read_back_witness:
  "read_fields [PlainField, QuotedField, QuotedField, TimeField, QuotedField, PlainField, PlainField]
     (common_line (demo_ctx (plain_request ''GET'' ''/a'')) (log_options [with_user (Some (\<lambda>_. [CHR ''b'', DQUOTE]))]) demo_log_time) =
     Some [''10.0.0.1'', ''-'', [CHR ''b'', DQUOTE], ''29/Feb/2024:13:05:59 -0330'', ''GET /a HTTP/1.1'', ''200'', ''0'']"
proof -
  let ?c = "demo_ctx (plain_request ''GET'' ''/a'')" and ?o = "log_options [with_user (Some (\<lambda>_. [CHR ''b'', DQUOTE]))]"
  have p: "plain_log_request (c_req ?c)" by code_simp
  have t: "valid_log_time demo_log_time" by (simp add: valid_log_time_def demo_log_time_def)
  have v: "lo_visitor ?o ?c = ''-''" "lo_user ?o ?c = [CHR ''b'', DQUOTE]"
    by (simp_all add: log_options_def with_user_def or_dash_def miss_def)
  then have "no_chars [CHR 0x5C] (lo_visitor ?o ?c)" "no_chars [CHR 0x5C] (lo_user ?o ?c)" by simp_all
  note rb = log_lines_read_back [OF p t this refl refl, unfolded v]
  have "remote_addr (c_req ?c) = ''10.0.0.1''"
    by (simp add: remote_addr_def demo_ctx_def plain_request_def split_host_port_def last_index_byte_def)
  moreover have "time_text demo_log_time = ''29/Feb/2024:13:05:59 -0330''"
    by (simp add: time_text_def format_log_time_def demo_log_time_def pad4_def pad2_def month_name_def digit_def char_of_def bit_0)
  moreover have "request_text (c_req ?c) = ''GET /a HTTP/1.1''"
    by (simp add: request_text_def demo_ctx_def plain_request_def)
  moreover have "itoa (std_status_code (c_rw ?c)) = ''200''" "itoa (int (std_body_bytes_sent (c_rw ?c))) = ''0''"
    by (simp_all add: demo_ctx_def new_response_writer_def std_status_code_def std_body_bytes_sent_def itoa_def
      dec_digits.simps digit_def char_of_def bit_0)
  ultimately show ?thesis using rb by simp
qed


end
