(* ===== verification/Form.thy ===== *)
theory Form
  imports Prelude
begin

text \<open>
  Form binding and validation, \<open>ext/form\<close>: the entity and its binders (\<open>binder.go\<close>), the
  validators by locale (\<open>validate.go\<close>).

  The decoders of forms and of JSON and the validation of a struct are third-party code:
  \<open>decode_form\<close> takes the zero value of the type and the values to the data it leaves and its error, a
  validator maps the data to the failures it finds, \<open>translate\<close> a failure and a locale to its message.
\<close>

section \<open>Entities and binders\<close>

record 'a entity =
  en_data :: 'a
  en_errors :: "string \<Rightarrow> string option"

type_synonym url_values = "string \<Rightarrow> string list"

text \<open>What a binder reads of a request: the query, the result of \<open>ParseForm\<close>, the body.\<close>

record form_request =
  fr_query :: url_values
  fr_parse_form :: "gerr + url_values"
  fr_body :: string

definition new_entity :: "'a \<Rightarrow> 'a entity" where
  "new_entity d = \<lparr>en_data = d, en_errors = Map.empty\<rparr>"

definition bind_query :: "('a \<Rightarrow> url_values \<Rightarrow> 'a \<times> gerr option) \<Rightarrow> 'a \<Rightarrow> form_request \<Rightarrow> gerr + 'a entity" where
  "bind_query decode_form zero r = (let (d, _) = decode_form zero (fr_query r) in Inr (new_entity d))"

definition bind_form :: "('a \<Rightarrow> url_values \<Rightarrow> 'a \<times> gerr option) \<Rightarrow> 'a \<Rightarrow> form_request \<Rightarrow> gerr + 'a entity" where
  "bind_form decode_form zero r =
     (case fr_parse_form r of
        Inl e \<Rightarrow> Inl e
      | Inr vals \<Rightarrow> (let (d, _) = decode_form zero vals in Inr (new_entity d)))"

definition bind_json :: "('a \<Rightarrow> string \<Rightarrow> gerr + 'a) \<Rightarrow> 'a \<Rightarrow> form_request \<Rightarrow> gerr + 'a entity" where
  "bind_json decode_json zero r =
     (case decode_json zero (fr_body r) of Inl e \<Rightarrow> Inl e | Inr d \<Rightarrow> Inr (new_entity d))"

section \<open>Validators\<close>

record failure =
  fe_field :: string
  fe_struct_field :: string
  fe_kind :: nat

text \<open>
  The error of \<open>Validate.Struct\<close>: none, a list of failures, or the error for a type that is no
  struct, on which the type assertion of \<open>Validate\<close> panics.
\<close>

datatype validation = Valid | Failures "failure list" | NotAStruct

record 'a validator =
  va_struct :: "'a \<Rightarrow> validation"
  va_locale :: string

record 'a validators =
  vs_map :: "string \<Rightarrow> 'a validator option"
  vs_default :: "'a validator option"

text \<open>\<open>fresh\<close> is \<open>validator.New()\<close>, \<open>register\<close> what the registration makes of the validator.\<close>

definition add_validator ::
  "('a \<Rightarrow> validation) \<Rightarrow> string \<Rightarrow> ('a validator \<Rightarrow> 'a validator) \<Rightarrow> 'a validators \<Rightarrow> 'a validator \<times> 'a validators" where
  "add_validator fresh locale_name register vs =
     (let v = register \<lparr>va_struct = fresh, va_locale = locale_name\<rparr>
      in (v, vs\<lparr>vs_map := (vs_map vs)(locale_name := Some v)\<rparr>))"

definition form_init :: "('a \<Rightarrow> validation) \<Rightarrow> ('a validator \<Rightarrow> 'a validator) \<Rightarrow> 'a validators" where
  "form_init fresh register_default =
     (let (v, vs) = add_validator fresh ''en'' register_default \<lparr>vs_map = Map.empty, vs_default = None\<rparr>;
          v1 = register_default v
      in vs\<lparr>vs_default := Some v1, vs_map := (vs_map vs)(va_locale v1 := Some v1)\<rparr>)"

fun find_validator :: "string list \<Rightarrow> 'a validators \<Rightarrow> 'a validator option" where
  "find_validator [] vs = vs_default vs"
| "find_validator (l # ls) vs = (case vs_map vs l of Some v \<Rightarrow> Some v | None \<Rightarrow> find_validator ls vs)"

section \<open>Validation\<close>

definition failure_name :: "failure \<Rightarrow> string" where
  "failure_name e = (if fe_field e = [] then fe_struct_field e else fe_field e)"

definition add_failures :: "(failure \<Rightarrow> string) \<Rightarrow> failure list \<Rightarrow> 'a entity \<Rightarrow> 'a entity" where
  "add_failures msg es t = fold (\<lambda>e t. t\<lparr>en_errors := (en_errors t)(failure_name e := Some (msg e))\<rparr>) es t"

definition entity_validate ::
  "(failure \<Rightarrow> string \<Rightarrow> string) \<Rightarrow> 'a validators \<Rightarrow> string list \<Rightarrow> 'a entity \<Rightarrow> (bool \<times> 'a entity) option" where
  "entity_validate translate vs languages t =
     do {
       v \<leftarrow> find_validator languages vs;
       case va_struct v (en_data t) of
         Valid \<Rightarrow> Some (True, t)
       | NotAStruct \<Rightarrow> None
       | Failures es \<Rightarrow> Some (False, add_failures (\<lambda>e. translate e (va_locale v)) es t)
     }"

text \<open>\<open>Error\<close>, with the order in which the map is iterated.\<close>

definition entity_error :: "string list \<Rightarrow> 'a entity \<Rightarrow> string" where
  "entity_error order t = go_join (map (\<lambda>k. k @ '': '' @ the (en_errors t k)) order) [LF]"

section \<open>Lemmas\<close>

lemma find_validator_first:
  "find_validator ls vs =
     (case find (\<lambda>l. vs_map vs l \<noteq> None) ls of None \<Rightarrow> vs_default vs | Some l \<Rightarrow> vs_map vs l)"
  by (induction ls) (auto split: option.split)

lemma find_validator_total:
  "vs_default vs \<noteq> None \<Longrightarrow> find_validator ls vs =
     Some (case find (\<lambda>l. vs_map vs l \<noteq> None) ls of None \<Rightarrow> the (vs_default vs) | Some l \<Rightarrow> the (vs_map vs l))"
  by (induction ls) (auto split: option.split)

lemma add_failures_errors:
  "en_errors (add_failures msg es t) n =
     (case find (\<lambda>e. failure_name e = n) (rev es) of None \<Rightarrow> en_errors t n | Some e \<Rightarrow> Some (msg e))"
proof (induction es rule: rev_induct)
  case (snoc e es)
  then show ?case by (simp add: add_failures_def)
qed (simp add: add_failures_def)

lemma add_failures_data [simp]: "en_data (add_failures msg es t) = en_data t"
  unfolding add_failures_def by (induction es arbitrary: t) simp_all

lemma add_validator_found:
  assumes "add_validator fresh l register vs = (v, vs')"
  shows "find_validator (l # ls) vs' = Some v"
    and "l \<notin> set ls \<Longrightarrow> find_validator ls vs' = find_validator ls vs"
proof -
  have vs': "vs_map vs' = (vs_map vs)(l := Some v)" "vs_default vs' = vs_default vs"
    using assms by (auto simp: add_validator_def Let_def)
  show "find_validator (l # ls) vs' = Some v" by (simp add: vs')
  show "l \<notin> set ls \<Longrightarrow> find_validator ls vs' = find_validator ls vs"
    by (induction ls) (auto simp: vs' split: option.split)
qed

lemma find_validator_init:
  assumes "\<And>v. va_locale (register v) = va_locale v"
  shows "find_validator ls (form_init fresh register) =
    Some (register (register \<lparr>va_struct = fresh, va_locale = ''en''\<rparr>))"
  by (induction ls) (simp_all add: form_init_def add_validator_def Let_def assms split: if_splits)

text \<open>
  The comment of \<open>BindForm\<close> promises an error when decoding fails; the error is dropped, and
  what had been decoded so far is bound.
\<close>

lemma bind_form_drops_decode_error:
  assumes "fr_parse_form r = Inr vals" and "decode_form zero vals = (d, Some e)"
  shows "bind_form decode_form zero r = Inr (new_entity d)"
  using assms by (simp add: bind_form_def)

text \<open>The messages of an earlier validation stay when the data has become valid.\<close>

lemma revalidation_keeps_messages:
  assumes "find_validator languages vs = Some v" and "va_struct v d = Valid"
  shows "entity_validate translate vs languages (t\<lparr>en_data := d\<rparr>) = Some (True, t\<lparr>en_data := d\<rparr>)"
  using assms by (simp add: entity_validate_def)

section \<open>Properties\<close>

text \<open>
  C40: validation reports what the validator found. The first language that has a validator
  decides, or else the default; the answer is true exactly when there is no failure; then
  nothing changes, and otherwise every field that failed has the message of its last failure in
  that language, and the other messages and the data stay.
\<close>

theorem validate_reports:
  assumes "v = (case find (\<lambda>l. vs_map vs l \<noteq> None) languages of None \<Rightarrow> the (vs_default vs) | Some l \<Rightarrow> the (vs_map vs l))"
    and "vs_default vs \<noteq> None" and "va_struct v (en_data t) \<noteq> NotAStruct"
  shows "\<exists>ok t'. entity_validate translate vs languages t = Some (ok, t') \<and>
    (ok \<longleftrightarrow> va_struct v (en_data t) = Valid) \<and> en_data t' = en_data t \<and>
    (ok \<longrightarrow> t' = t) \<and>
    (\<forall>es. va_struct v (en_data t) = Failures es \<longrightarrow>
      (\<forall>n. en_errors t' n =
        (case find (\<lambda>e. failure_name e = n) (rev es) of
           None \<Rightarrow> en_errors t n
         | Some e \<Rightarrow> Some (translate e (va_locale v)))))"
proof -
  have "find_validator languages vs = Some v"
    using find_validator_total [OF assms(2)] assms(1) by simp
  then show ?thesis
    using assms(3) by (cases "va_struct v (en_data t)") (auto simp: entity_validate_def add_failures_errors)
qed

section \<open>Witnesses\<close>

text \<open>A type with one field, a number that must be positive.\<close>

definition demo_validators :: "int validators" where
  "demo_validators =
     form_init (\<lambda>n. if n > 0 then Valid else Failures [\<lparr>fe_field = ''age'', fe_struct_field = ''Age'', fe_kind = 0\<rparr>]) (\<lambda>v. v)"

lemma validate_reports_witness:
  "\<exists>t'. entity_validate (\<lambda>_ l. l @ '': too small'') demo_validators [''de''] (new_entity (0 :: int)) = Some (False, t') \<and>
     en_errors t' ''age'' = Some ''en: too small''"
proof -
  let ?v = "\<lparr>va_struct = \<lambda>n. if n > 0 then Valid else Failures [\<lparr>fe_field = ''age'', fe_struct_field = ''Age'', fe_kind = 0\<rparr>],
    va_locale = ''en''\<rparr> :: int validator"
  have "?v = (case find (\<lambda>l. vs_map demo_validators l \<noteq> None) [''de''] of
      None \<Rightarrow> the (vs_default demo_validators) | Some l \<Rightarrow> the (vs_map demo_validators l))"
    "vs_default demo_validators \<noteq> None"
    by (simp_all add: demo_validators_def form_init_def add_validator_def Let_def)
  note vr = validate_reports [OF this, of "new_entity 0" "\<lambda>_ l. l @ '': too small''"]
  have f: "va_struct ?v (en_data (new_entity 0)) = Failures [\<lparr>fe_field = ''age'', fe_struct_field = ''Age'', fe_kind = 0\<rparr>]"
    by (simp add: new_entity_def)
  then obtain t' where t': "entity_validate (\<lambda>_ l. l @ '': too small'') demo_validators [''de''] (new_entity 0) = Some (False, t')"
    "\<forall>n. en_errors t' n = (case find (\<lambda>e. failure_name e = n) (rev [\<lparr>fe_field = ''age'', fe_struct_field = ''Age'', fe_kind = 0\<rparr>]) of
        None \<Rightarrow> en_errors (new_entity (0 :: int)) n | Some e \<Rightarrow> Some (va_locale ?v @ '': too small''))"
    using vr unfolding f by auto
  from t'(2) have "en_errors t' ''age'' = Some ''en: too small''" by (simp add: failure_name_def)
  with t'(1) show ?thesis by blast
qed

end
