(* ===== verification/Autotls.thy ===== *)
theory Autotls
  imports Prelude
begin

text \<open>
  Automatic certificates, \<open>ext/autotls\<close>: the manager and its options, and what \<open>Configure\<close> does to the
  two servers. \<open>autocert\<close> is third-party code: its manager's handler is the parameter \<open>http_handler\<close>,
  its certificate callback is known by the manager it belongs to.
\<close>

section \<open>The manager\<close>

datatype cert_cache = DirCache string | CustomCache nat

datatype host_policy = HostWhitelist "string list"

record manager =
  mg_accept_tos :: bool
  mg_cache :: "cert_cache option"
  mg_policy :: "host_policy option"

type_synonym autotls_option = "manager \<Rightarrow> manager"

definition with_cache :: "cert_cache option \<Rightarrow> autotls_option" where
  "with_cache cache m = m\<lparr>mg_cache := cache\<rparr>"

definition with_hosts :: "string list \<Rightarrow> autotls_option" where
  "with_hosts hosts m = m\<lparr>mg_policy := Some (HostWhitelist hosts)\<rparr>"

definition new_manager :: "autotls_option list \<Rightarrow> manager" where
  "new_manager opts =
     (let cm = fold (\<lambda>opt m. opt m) opts \<lparr>mg_accept_tos = True, mg_cache = None, mg_policy = None\<rparr>
      in if mg_cache cm = None then cm\<lparr>mg_cache := Some (DirCache ''.'')\<rparr> else cm)"

section \<open>The servers\<close>

datatype cert_source = OtherSource nat | ManagerSource manager

record tls_config =
  tc_min :: nat
  tc_max :: nat
  tc_get_certificate :: "cert_source option"

record 'h http_server =
  hs_handler :: 'h
  hs_read_header_timeout :: int
  hs_tls :: "tls_config option"

definition version_tls12 :: nat where "version_tls12 = 0x0303"

definition three_seconds :: int where "three_seconds = 3 * 1000000000"

definition limit_headers :: "'h http_server \<Rightarrow> 'h http_server" where
  "limit_headers s = (if hs_read_header_timeout s = 0 then s\<lparr>hs_read_header_timeout := three_seconds\<rparr> else s)"

text \<open>A nil server is \<open>None\<close>.\<close>

definition configure ::
  "(manager \<Rightarrow> 'h \<Rightarrow> 'h) \<Rightarrow> manager \<Rightarrow> 'h http_server option \<Rightarrow> 'h http_server option \<Rightarrow>
     'h http_server option \<times> 'h http_server option" where
  "configure http_handler m http https =
     (case (http, https) of
        (Some a, Some b) \<Rightarrow>
          (let a1 = limit_headers (a\<lparr>hs_handler := http_handler m (hs_handler a)\<rparr>);
               b1 = limit_headers b;
               cfg = (case hs_tls b1 of
                        None \<Rightarrow> \<lparr>tc_min = version_tls12, tc_max = 0, tc_get_certificate = None\<rparr>
                      | Some cfg \<Rightarrow> cfg)
           in (Some a1, Some (b1\<lparr>hs_tls := Some (cfg\<lparr>tc_get_certificate := Some (ManagerSource m)\<rparr>)\<rparr>)))
      | _ \<Rightarrow> (http, https))"

section \<open>Lemmas\<close>

text \<open>The options given last win; without a cache the working directory is used.\<close>

lemma new_manager_hosts:
  "new_manager [with_hosts hs] = \<lparr>mg_accept_tos = True, mg_cache = Some (DirCache ''.''), mg_policy = Some (HostWhitelist hs)\<rparr>"
  by (simp add: new_manager_def with_hosts_def Let_def)

lemma new_manager_cache: "mg_cache (new_manager (opts @ [with_cache (Some c)])) = Some c"
  by (simp add: new_manager_def with_cache_def Let_def)

lemma fold_policy_stays:
  "(\<And>opt m. opt \<in> set opts \<Longrightarrow> mg_policy (opt m) = mg_policy m) \<Longrightarrow> mg_policy (fold (\<lambda>opt m. opt m) opts m) = mg_policy m"
  by (induction opts arbitrary: m) simp_all

lemma limit_headers_bound [simp]: "hs_read_header_timeout (limit_headers s) \<noteq> 0"
  by (simp add: limit_headers_def three_seconds_def)

text \<open>
  What \<open>Configure\<close> leaves: the challenge handler around the old one, no unlimited headers, the
  manager's certificates. One server alone is left as it is.
\<close>

lemma configure_both:
  assumes "configure http_handler m (Some a) (Some b) = (http, https)"
  shows "\<exists>a1 b1 cfg. http = Some a1 \<and> https = Some b1 \<and> hs_handler a1 = http_handler m (hs_handler a) \<and>
    hs_handler b1 = hs_handler b \<and> hs_read_header_timeout a1 \<noteq> 0 \<and> hs_read_header_timeout b1 \<noteq> 0 \<and>
    hs_tls b1 = Some cfg \<and> tc_get_certificate cfg = Some (ManagerSource m) \<and>
    (case hs_tls b of
       None \<Rightarrow> tc_min cfg = version_tls12
     | Some old \<Rightarrow> cfg = old\<lparr>tc_get_certificate := Some (ManagerSource m)\<rparr>)"
proof -
  have f: "hs_handler (limit_headers s) = hs_handler s" "hs_tls (limit_headers s) = hs_tls s" for s :: "'a http_server"
    by (simp_all add: limit_headers_def)
  show ?thesis using assms by (cases "hs_tls b") (auto simp: configure_def Let_def f)
qed

lemma configure_one: "configure http_handler m None b = (None, b)" "configure http_handler m a None = (a, None)"
  by (simp_all add: configure_def split: option.split)

text \<open>
  The comment of \<open>Configure\<close> says that it ensures at least TLS 1.2; a configuration that is there
  keeps the versions it has.
\<close>

lemma configure_keeps_old_tls:
  assumes "hs_tls b = Some \<lparr>tc_min = 0x0301, tc_max = 0, tc_get_certificate = None\<rparr>"
  shows "\<exists>b1 cfg. snd (configure http_handler m (Some a) (Some b)) = Some b1 \<and> hs_tls b1 = Some cfg \<and> tc_min cfg < version_tls12"
  using assms by (simp add: configure_def Let_def limit_headers_def version_tls12_def)

end
