(* ===== verification/Spec2Isabelle.thy ===== *)
theory Spec2Isabelle
  imports ViewEngines ProxyProto SseServer Guards Reqlog Form Autotls
begin

text \<open>
  A model of xun, a small web framework for Go.
\<close>

section \<open>Properties that span components\<close>

lemma fresh_new_ctx:
  "w_status w = None \<Longrightarrow> fresh_ctx (new_ctx a r pl req (create_writer comps req w)) \<and>
     c_req (new_ctx a r pl req (create_writer comps req w)) = req"
  by (simp add: fresh_ctx_def new_ctx_def create_writer_def Let_def compressor_new_def gzip_new_def deflate_new_def
      new_response_writer_def split: option.split compressor.split)

text \<open>
  C1: the extensions guard a route. On an application that uses the access list, the redirect
  to TLS, its header, the caching rules and the CSRF check, a request that the access list
  refuses, that belongs on TLS, or that carries no token it should, gets one fixed answer,
  the same for every handler of the route; any other request reaches the handler, whose
  result the closure finishes, with the answer still open. This holds with the htmx interceptor
  and without, and behind any compressor.
\<close>

theorem extensions_guard_route:
  assumes "a_routes a pat = Some r" and "rt_chain r = AppChain" and "w_status w = None"
    and "a_middlewares a = [acl_middleware env as_any o1, hsts_redirect env code rules, hsts_write_header hopts,
           cache_new copts, csrf_middleware mac rnd o2]"
    and "e_interceptor env \<in> {None, Some htmx_interceptor}"
    and "ao_viewer o1 = []" and "200 \<le> ao_code o1" "ao_code o1 \<le> 999" and "200 \<le> code" "code \<le> 999"
  shows "if acl_refused o1 req \<or> upgrades rules req \<or> forged mac o2 req
    then \<exists>c s. s \<in> {200, 403, ao_code o1, code, 418} \<and> w_status (rw_under (c_rw c)) = Some s \<and>
      (\<forall>h. serve env (a\<lparr>a_routes := (a_routes a)(pat := Some (r\<lparr>rt_handle := h\<rparr>))\<rparr>) pat k log_id pl req w = Some c)
    else \<exists>c1. fresh_ctx c1 \<and> c_req c1 = req \<and>
      (\<forall>h. serve env (a\<lparr>a_routes := (a_routes a)(pat := Some (r\<lparr>rt_handle := h\<rparr>))\<rparr>) pat k log_id pl req w =
        do {
          (err, c) \<leftarrow> h c1;
          c' \<leftarrow> finish env k log_id err c;
          Some (c'\<lparr>c_rw := rw_close (e_z env) (c_rw c')\<rparr>)
        })"
proof -
  let ?codes = "{200, 403, ao_code o1, code, 418}"
  let ?rs = "[acl_refused o1, upgrades rules, \<lambda>_. False, \<lambda>_. False, forged mac o2]"
  let ?c0 = "new_ctx a r pl req (create_writer (a_compressors a) req w)"
  let ?ms = "a_middlewares a"
  have gs: "list_all2 (guards ?codes) ?ms ?rs"
    using acl_guards [OF assms(5-8)] hsts_redirect_guards [OF assms(5,9,10)] hsts_header_guards cache_guards csrf_guards
    by (simp add: assms(4))
  have fresh: "fresh_ctx ?c0" "c_req ?c0 = req" using fresh_new_ctx [OF assms(3)] by simp_all
  have some: "(\<exists>refuses \<in> set ?rs. refuses (c_req ?c0)) \<longleftrightarrow> acl_refused o1 req \<or> upgrades rules req \<or> forged mac o2 req"
    by (simp add: fresh)
  have serve: "serve env (a\<lparr>a_routes := (a_routes a)(pat := Some (r\<lparr>rt_handle := h\<rparr>))\<rparr>) pat k log_id pl req w =
      do {
        (err, c) \<leftarrow> foldr (\<lambda>m. m) ?ms h ?c0;
        c' \<leftarrow> finish env k log_id err c;
        Some (c'\<lparr>c_rw := rw_close (e_z env) (c_rw c')\<rparr>)
      }" for h
    using assms(2) app_chain.next_fold [of a h]
    by (simp add: serve_def routing_next_def chain_next_def new_ctx_def app_next_def)
  show ?thesis
  proof (cases "acl_refused o1 req \<or> upgrades rules req \<or> forged mac o2 req")
    case True
    then obtain c1 s where c1: "s \<in> ?codes" "w_status (rw_under (c_rw c1)) = Some s"
      "\<And>h. foldr (\<lambda>m. m) ?ms h ?c0 = Some (Some ErrCancelled, c1)"
      using guards_chain [OF gs fresh(1)] unfolding some by auto
    then show ?thesis
      unfolding if_P [OF True] serve using rw_op_keeps_status(3) [OF c1(2), of "e_z env"] by (auto simp: finish_def)
  next
    case False
    then obtain c1 where "fresh_ctx c1" "c_req c1 = c_req ?c0" "\<And>h. foldr (\<lambda>m. m) ?ms h ?c0 = h c1"
      using guards_chain [OF gs fresh(1)] unfolding some by auto
    then show ?thesis unfolding if_not_P [OF False] serve using fresh(2) by auto
  qed
qed


section \<open>Witnesses\<close>

definition stack_app :: app where
  "stack_app = (new_app [JsonViewer] [])
     \<lparr>a_middlewares := [acl_middleware demo_env (\<lambda>_. AnyNil) (new_options\<lparr>ao_code := 302\<rparr>), hsts_redirect demo_env 301 [],
        hsts_write_header [], cache_new [], csrf_middleware demo_mac None (csrf_options ''k'' [])],
      a_routes := [''GET /x'' \<mapsto> guarded_route\<lparr>rt_chain := AppChain\<rparr>]\<rparr>"

lemma extensions_guard_route_witness:
  "\<exists>c. (\<forall>h. serve demo_env (stack_app\<lparr>a_routes := (a_routes stack_app)(''GET /x'' := Some
        (guarded_route\<lparr>rt_chain := AppChain, rt_handle := h\<rparr>))\<rparr>) ''GET /x'' FuncClosure ''id''
        (new_buffer_pool 1) (plain_request ''GET'' ''/x'') new_http_rw = Some c)"
proof -
  let ?r = "guarded_route\<lparr>rt_chain := AppChain\<rparr>" and ?req = "plain_request ''GET'' ''/x''"
  have "upgrades [] ?req" by (simp add: upgrades_def plain_request_def)
  moreover have "a_routes stack_app ''GET /x'' = Some ?r" "rt_chain ?r = AppChain" "w_status new_http_rw = None"
    by (simp_all add: stack_app_def new_http_rw_def)
  moreover have "e_interceptor demo_env \<in> {None, Some htmx_interceptor}" by (simp add: demo_env_def)
  ultimately show ?thesis
    using extensions_guard_route [of stack_app "''GET /x''" ?r new_http_rw demo_env "\<lambda>_. AnyNil" "new_options\<lparr>ao_code := 302\<rparr>"
        301 "[]" "[]" "[]" demo_mac None "csrf_options ''k'' []" ?req FuncClosure "''id''" "new_buffer_pool 1"]
    by (auto simp: stack_app_def new_options_def)
qed


end
